theory Spec2Isabelle
  imports Main "HOL-Library.Sublist"
begin

section \<open>Tokens, diagnostics and the parser state\<close>

text \<open>
  The token kinds that \<^verbatim>\<open>lib/Parse/ParseType.cpp\<close> inspects. Every other keyword is
  \<open>tok_kw_other\<close> (with its spelling), every other token is \<open>tok_unknown\<close>.
\<close>

datatype tok =
    tok_unknown | tok_eof | tok_identifier | tok_integer_literal
  | tok_oper_binary | tok_oper_postfix | tok_oper_prefix
  | tok_kw_This | tok_kw_metatype | tok_kw_protocol | tok_kw_other string
  | tok_l_paren | tok_r_paren | tok_l_brace | tok_r_brace | tok_l_square | tok_r_square
  | tok_period | tok_period_prefix | tok_comma | tok_colon | tok_semi | tok_equal | tok_arrow | tok_ellipsis | tok_question

text \<open>
  A token as the lexer hands it over: kind, spelling, source location, the
  start-of-line flag, and the character that stands immediately before the spelling in
  the source buffer (what \<^verbatim>\<open>tok.getText().data()[-1]\<close> reads).
\<close>

record Token =
  tokKind :: tok
  tokText :: string
  tokLoc :: nat
  tokAtStartOfLine :: bool
  tokPrecedingChar :: char

datatype Diag =
    expected_type | expected_type_function_result
  | expected_rangle_generic_arg_list | opening_angle
  | expected_identifier_for_type | expected_identifier_in_dotted_type
  | expected_langle_protocol | expected_rangle_protocol
  | expected_rparen_tuple_type_list | opening_paren
  | expected_initializer_expr | tuple_type_init
  | unexpected_ellipsis_in_tuple | empty_tuple_ellipsis
  | expected_expr_array_type | expected_rbracket_array_type | opening_bracket
  | unsupported_fixed_length_array
  | other_diag string

text \<open>
  An emitted diagnostic: where, which condition, and the source range it highlights or
  offers to remove (if any).
\<close>

type_synonym Diagnostic = "nat \<times> Diag \<times> (nat \<times> nat) option"

text \<open>
  The parser state the type parser reads and writes: the tokens from the current one
  on (the head of \<open>toks\<close> is \<^verbatim>\<open>Tok\<close>, the second is \<^verbatim>\<open>peekToken()\<close>), and the
  diagnostics emitted so far.
\<close>

record Parser =
  toks :: "Token list"
  diags :: "Diagnostic list"

subsection \<open>Lexer and parser primitives\<close>

text \<open>
  Modelled from the spec: the lexer collaborator (section 6: current-token kind, text
  and location, one-token lookahead, the start-of-line flag, a cursor \<open>consume\<close>
  primitive). \<^verbatim>\<open>Parser.h\<close>, \<^verbatim>\<open>Parser.cpp\<close>, \<^verbatim>\<open>Token.h\<close> and \<^verbatim>\<open>Lexer.cpp\<close> are
  not among the sources. Once the tokens are exhausted the lexer keeps answering with
  the end-of-input token.
\<close>

definition eofToken :: Token where
  "eofToken = \<lparr>tokKind = tok_eof, tokText = [], tokLoc = 0, tokAtStartOfLine = False,
     tokPrecedingChar = CHR 0x00\<rparr>"

definition Tok :: "Parser \<Rightarrow> Token" where
  "Tok s = (case toks s of [] \<Rightarrow> eofToken | t # _ \<Rightarrow> t)"

definition peekToken :: "Parser \<Rightarrow> Token" where
  "peekToken s = (case toks s of t # u # _ \<Rightarrow> u | _ \<Rightarrow> eofToken)"

text \<open>
  Modelled from the spec: the classification methods of \<^verbatim>\<open>Token\<close> (\<^verbatim>\<open>is\<close>,
  \<^verbatim>\<open>isNot\<close>, \<^verbatim>\<open>isAnyOperator\<close>, \<^verbatim>\<open>isAtStartOfLine\<close>); the operator class is
  the binary, postfix and prefix operator tokens.
\<close>

definition tokIs :: "Token \<Rightarrow> tok \<Rightarrow> bool" where
  "tokIs t k = (tokKind t = k)"

definition tokIsNot :: "Token \<Rightarrow> tok \<Rightarrow> bool" where
  "tokIsNot t k = (tokKind t \<noteq> k)"

definition isAnyOperator :: "Token \<Rightarrow> bool" where
  "isAnyOperator t = (tokIs t tok_oper_binary \<or> tokIs t tok_oper_postfix \<or> tokIs t tok_oper_prefix)"

definition isAtStartOfLine :: "Token \<Rightarrow> bool" where
  "isAtStartOfLine t = tokAtStartOfLine t"

text \<open>
  Modelled from the spec: \<^verbatim>\<open>Token::isFollowingLSquare\<close>, an opening square bracket
  that is not separated from the type by a line break (section 4.1, postfix item 4).
\<close>

definition isFollowingLSquare :: "Token \<Rightarrow> bool" where
  "isFollowingLSquare t = (tokIs t tok_l_square \<and> \<not> isAtStartOfLine t)"

text \<open>
  Modelled from the spec: \<^verbatim>\<open>consumeToken\<close> and \<^verbatim>\<open>consumeIf\<close>, the cursor's consume
  primitive (section 6), and \<^verbatim>\<open>diagnose\<close>, the diagnostic sink, which records the
  location and the condition (with \<open>diagnoseRange\<close> also the highlighted or removed
  range).
\<close>

definition consumeToken :: "Parser \<Rightarrow> Parser" where
  "consumeToken s = s\<lparr>toks := tl (toks s)\<rparr>"

definition consumeIf :: "tok \<Rightarrow> Parser \<Rightarrow> bool \<times> Parser" where
  "consumeIf k s = (if tokIs (Tok s) k then (True, consumeToken s) else (False, s))"

definition diagnose :: "nat \<Rightarrow> Diag \<Rightarrow> Parser \<Rightarrow> Parser" where
  "diagnose l d s = s\<lparr>diags := diags s @ [(l, d, None)]\<rparr>"

definition diagnoseRange :: "nat \<Rightarrow> Diag \<Rightarrow> nat \<times> nat \<Rightarrow> Parser \<Rightarrow> Parser" where
  "diagnoseRange l d r s = s\<lparr>diags := diags s @ [(l, d, Some r)]\<rparr>"

text \<open>
  Modelled from the spec: \<^verbatim>\<open>startsWithLess\<close>, \<^verbatim>\<open>startsWithGreater\<close> and the two
  consumers of a leading angle bracket. An operator token whose spelling starts with
  the bracket counts; consuming the bracket of a longer operator (the \<open>>>\<close> closing two
  generic-argument lists) leaves the rest of the spelling as the current token.
\<close>

definition startsWithLess :: "Token \<Rightarrow> bool" where
  "startsWithLess t = (isAnyOperator t \<and> (case tokText t of [] \<Rightarrow> False | c # _ \<Rightarrow> c = CHR ''<''))"

definition startsWithGreater :: "Token \<Rightarrow> bool" where
  "startsWithGreater t = (isAnyOperator t \<and> (case tokText t of [] \<Rightarrow> False | c # _ \<Rightarrow> c = CHR ''>''))"

definition consumeStartingCharacter :: "Parser \<Rightarrow> Parser" where
  "consumeStartingCharacter s =
     (case toks s of
        [] \<Rightarrow> s
      | t # ts \<Rightarrow>
          (case tokText t of
             c # d # cs \<Rightarrow>
               s\<lparr>toks := t\<lparr>tokText := d # cs, tokLoc := Suc (tokLoc t),
                           tokAtStartOfLine := False, tokPrecedingChar := c\<rparr> # ts\<rparr>
           | _ \<Rightarrow> consumeToken s))"

definition consumeStartingLess :: "Parser \<Rightarrow> Parser" where
  "consumeStartingLess s = consumeStartingCharacter s"

definition consumeStartingGreater :: "Parser \<Rightarrow> Parser" where
  "consumeStartingGreater s = consumeStartingCharacter s"

text \<open>
  Modelled from the spec: \<^verbatim>\<open>skipUntilAnyOperator\<close>, the recovery primitive that skips
  forward to the next occurrence of an operator-class token (sections 6 and 7); it
  stops at the end of input.
\<close>

definition skipUntilAnyOperator :: "Parser \<Rightarrow> Parser" where
  "skipUntilAnyOperator s =
     s\<lparr>toks := dropWhile (\<lambda>t. tokIsNot t tok_eof \<and> \<not> isAnyOperator t) (toks s)\<rparr>"

text \<open>
  Modelled from the spec: \<^verbatim>\<open>parseMatchingToken\<close>, the "expect and consume a specific
  kind" primitive of section 6. It answers \<open>True\<close> on failure, after diagnosing the
  missing token and, as a note, the opening delimiter; the cursor stays where it is.
\<close>

definition openingNote :: "tok \<Rightarrow> Diag" where
  "openingNote k = (if k = tok_r_square then opening_bracket else opening_paren)"

definition parseMatchingToken :: "tok \<Rightarrow> Diag \<Rightarrow> nat \<Rightarrow> Parser \<Rightarrow> bool \<times> Parser" where
  "parseMatchingToken k errorDiag otherLoc s =
     (if tokIs (Tok s) k then (False, consumeToken s)
      else (True, diagnose otherLoc (openingNote k) (diagnose (tokLoc (Tok s)) errorDiag s)))"

section \<open>The type representations\<close>

text \<open>
  An expression is opaque to the type parser, which reads only its source range.
  Attributes are opaque too: only whether the set is empty matters. A declaration found
  by scope lookup is an opaque reference.
\<close>

datatype Expr = Expr (exprStartLoc: nat) (exprEndLoc: nat)

definition exprSourceRange :: "Expr \<Rightarrow> nat \<times> nat" where
  "exprSourceRange e = (exprStartLoc e, exprEndLoc e)"

type_synonym DeclAttributes = "string list"

type_synonym ValueDecl = nat

text \<open>
  The \<^verbatim>\<open>TypeRepr\<close> nodes the parser allocates. An \<^verbatim>\<open>IdentTypeRepr\<close> is its list
  of components, so a protocol composition holds a list of component lists. The node
  wrapped by \<^verbatim>\<open>AttributedTypeRepr\<close> is a pointer that \<^verbatim>\<open>applyAttributeToType\<close> does
  not test, hence an option here. \<^verbatim>\<open>SourceLoc()\<close>, the invalid location, is \<open>None\<close>.
  A component holds its location, name, generic arguments and the declaration found by
  scope lookup; the ambient \<^verbatim>\<open>CurDeclContext\<close> it is created with is left out.
\<close>

datatype TypeRepr =
    IdentTypeRepr "Component list"
  | ProtocolCompositionTypeRepr "Component list list" nat "nat \<times> nat"
  | TupleTypeRepr "TypeRepr list" "nat \<times> nat" "nat option"
  | NamedTypeRepr string TypeRepr nat
  | FunctionTypeRepr TypeRepr TypeRepr
  | OptionalTypeRepr TypeRepr nat
  | ArrayTypeRepr TypeRepr "Expr option" "nat \<times> nat"
  | MetaTypeTypeRepr TypeRepr nat
  | AttributedTypeRepr DeclAttributes "TypeRepr option"
and Component =
    Component (compLoc: nat) (compName: string) (compGenericArgs: "TypeRepr list")
      (compValue: "ValueDecl option")

definition setValue :: "ValueDecl \<Rightarrow> Component \<Rightarrow> Component" where
  "setValue v c = Component (compLoc c) (compName c) (compGenericArgs c) (Some v)"

section \<open>The external collaborators\<close>

text \<open>
  What the type parser calls and this file does not define (spec, section 6), taken as
  parameters: the identifier keywords of \<^verbatim>\<open>Tokens.def\<close>, the expression parser, the
  attribute-list parser (whether it failed, the attributes, the new state; the type
  parser discards the first), the binding-name and declaration-start predicates,
  \<^verbatim>\<open>skipSingle\<close>, and scope lookup.
\<close>

record Collaborators =
  isIdentifierKeyword :: "tok \<Rightarrow> bool"
  parseExpr :: "Diag \<Rightarrow> Parser \<Rightarrow> Expr option \<times> Parser"
  parseAttributeList :: "Parser \<Rightarrow> bool \<times> DeclAttributes \<times> Parser"
  isStartOfBindingName :: "Token \<Rightarrow> bool"
  isStartOfDecl :: "Token \<Rightarrow> Token \<Rightarrow> bool"
  skipSingle :: "Parser \<Rightarrow> Parser"
  lookupInScope :: "string \<Rightarrow> ValueDecl option"

text \<open>
  Modelled from the spec: \<^verbatim>\<open>parseIdentifier\<close> ("parse one name", section 4.1). It
  accepts what the prober's \<^verbatim>\<open>canParseTypeIdentifier\<close> consumes as a name, an
  identifier or an identifier keyword, and diagnoses anything else.
\<close>

definition parseIdentifier ::
  "Collaborators \<Rightarrow> Diag \<Rightarrow> Parser \<Rightarrow> (string \<times> nat) option \<times> Parser" where
  "parseIdentifier E d s =
     (if tokIs (Tok s) tok_identifier \<or> isIdentifierKeyword E (tokKind (Tok s))
      then (Some (tokText (Tok s), tokLoc (Tok s)), consumeToken s)
      else (None, diagnose (tokLoc (Tok s)) d s))"

text \<open>
  Modelled from the spec: \<^verbatim>\<open>parseList\<close>, the generic delimited-list helper of
  section 4.1: elements separated by the separator until the closing token, which
  is then expected and consumed. The callback answers \<open>True\<close> when its element is
  invalid; the list goes on after an invalid element. The callback's captured locals
  are the accumulator \<open>acc\<close>. The fuel bounds the number of elements.
\<close>

fun parseListLoop ::
  "tok \<Rightarrow> nat \<Rightarrow> tok \<Rightarrow> Diag \<Rightarrow> ('a \<Rightarrow> Parser \<Rightarrow> (bool \<times> 'a \<times> Parser) option) \<Rightarrow>
   nat \<Rightarrow> bool \<Rightarrow> 'a \<Rightarrow> Parser \<Rightarrow> (bool \<times> 'a \<times> Parser) option" where
  "parseListLoop RightK LeftLoc SeparatorK ErrorDiag callback 0 Invalid acc s = None"
| "parseListLoop RightK LeftLoc SeparatorK ErrorDiag callback (Suc n) Invalid acc s =
     (case callback acc s of
        None \<Rightarrow> None
      | Some (bad, acc1, s1) \<Rightarrow>
          (case consumeIf SeparatorK s1 of
             (True, s2) \<Rightarrow>
               parseListLoop RightK LeftLoc SeparatorK ErrorDiag callback n (Invalid \<or> bad) acc1 s2
           | (False, s2) \<Rightarrow>
               (case parseMatchingToken RightK ErrorDiag LeftLoc s2 of
                  (bad2, s3) \<Rightarrow> Some (Invalid \<or> bad \<or> bad2, acc1, s3))))"

definition parseList ::
  "tok \<Rightarrow> nat \<Rightarrow> tok \<Rightarrow> Diag \<Rightarrow> ('a \<Rightarrow> Parser \<Rightarrow> (bool \<times> 'a \<times> Parser) option) \<Rightarrow>
   nat \<Rightarrow> 'a \<Rightarrow> Parser \<Rightarrow> (bool \<times> 'a \<times> Parser) option" where
  "parseList RightK LeftLoc SeparatorK ErrorDiag callback n acc s =
     (if tokIs (Tok s) RightK then Some (False, acc, consumeToken s)
      else parseListLoop RightK LeftLoc SeparatorK ErrorDiag callback n False acc s)"

section \<open>The committed parser\<close>

text \<open>
  \<^verbatim>\<open>applyAttributeToType\<close>: the type itself when there is no attribute, an
  \<^verbatim>\<open>AttributedTypeRepr\<close> around the pointer otherwise.
\<close>

definition applyAttributeToType :: "TypeRepr option \<Rightarrow> DeclAttributes \<Rightarrow> TypeRepr option" where
  "applyAttributeToType ty attrs = (if attrs = [] then ty else Some (AttributedTypeRepr attrs ty))"

text \<open>
  The loop of \<^verbatim>\<open>parseType\<close> over \<^verbatim>\<open>.metatype\<close> suffixes: while the current token
  is a period and the next one is the metatype keyword.
\<close>

function parseMetatypeSuffixes :: "TypeRepr \<Rightarrow> Parser \<Rightarrow> TypeRepr \<times> Parser" where
  "parseMetatypeSuffixes ty s =
     (if (tokIs (Tok s) tok_period \<or> tokIs (Tok s) tok_period_prefix) \<and>
         tokIs (peekToken s) tok_kw_metatype
      then (let s1 = consumeToken s;
                metatypeLoc = tokLoc (Tok s1);
                s2 = consumeToken s1
            in parseMetatypeSuffixes (MetaTypeTypeRepr ty metatypeLoc) s2)
      else (ty, s))"
  by pat_completeness auto
termination
  by (relation "measure (\<lambda>(ty, s). length (toks s))")
     (auto simp: Tok_def tokIs_def eofToken_def consumeToken_def split: list.splits)

declare parseMetatypeSuffixes.simps [simp del]

text \<open>\<^verbatim>\<open>parseTypeOptional\<close>: consume the question mark and wrap the base.\<close>

definition parseTypeOptional :: "TypeRepr \<Rightarrow> Parser \<Rightarrow> TypeRepr \<times> Parser" where
  "parseTypeOptional base s = (OptionalTypeRepr base (tokLoc (Tok s)), consumeToken s)"

text \<open>
  The loop of \<^verbatim>\<open>parseType\<close> over optional suffixes: while the current token is a
  question mark that does not start a line.
\<close>

function parseOptionalSuffixes :: "TypeRepr \<Rightarrow> Parser \<Rightarrow> TypeRepr \<times> Parser" where
  "parseOptionalSuffixes ty s =
     (if tokIs (Tok s) tok_question \<and> \<not> isAtStartOfLine (Tok s)
      then (case parseTypeOptional ty s of (ty1, s1) \<Rightarrow> parseOptionalSuffixes ty1 s1)
      else (ty, s))"
  by pat_completeness auto
termination
  by (relation "measure (\<lambda>(ty, s). length (toks s))")
     (auto simp: Tok_def tokIs_def eofToken_def consumeToken_def parseTypeOptional_def
           split: list.splits)

declare parseOptionalSuffixes.simps [simp del]

text \<open>
  \<^verbatim>\<open>parseTypeArray\<close>, entered at the opening square bracket. An empty bracket pair
  is a slice and recurs on a following bracket clause before building its node. A size
  expression is parsed by the expression collaborator and the closing bracket is
  required; the branch ends in the unsupported-feature diagnostic and no node. The
  fuel bounds the number of bracket clauses.
\<close>

fun parseTypeArray ::
  "Collaborators \<Rightarrow> nat \<Rightarrow> TypeRepr \<Rightarrow> Parser \<Rightarrow> (TypeRepr option \<times> Parser) option" where
  "parseTypeArray E 0 Base s = None"
| "parseTypeArray E (Suc n) Base s =
     (let lsquareLoc = tokLoc (Tok s); s1 = consumeToken s in
      if tokIs (Tok s1) tok_r_square then
        (let rsquareLoc = tokLoc (Tok s1); s2 = consumeToken s1 in
         if isFollowingLSquare (Tok s2) then
           (case parseTypeArray E n Base s2 of
              None \<Rightarrow> None
            | Some (None, s3) \<Rightarrow> Some (None, s3)
            | Some (Some Base1, s3) \<Rightarrow>
                Some (Some (ArrayTypeRepr Base1 None (lsquareLoc, rsquareLoc)), s3))
         else Some (Some (ArrayTypeRepr Base None (lsquareLoc, rsquareLoc)), s2))
      else
        (case parseExpr E expected_expr_array_type s1 of
           (None, s2) \<Rightarrow> Some (None, s2)
         | (Some sizeEx, s2) \<Rightarrow>
             (case parseMatchingToken tok_r_square expected_rbracket_array_type lsquareLoc s2 of
                (True, s3) \<Rightarrow> Some (None, s3)
              | (False, s3) \<Rightarrow>
                  if isFollowingLSquare (Tok s3) then
                    (case parseTypeArray E n Base s3 of
                       None \<Rightarrow> None
                     | Some (None, s4) \<Rightarrow> Some (None, s4)
                     | Some (Some Base1, s4) \<Rightarrow>
                         Some (None, diagnoseRange lsquareLoc unsupported_fixed_length_array
                                       (exprSourceRange sizeEx) s4))
                  else Some (None, diagnoseRange lsquareLoc unsupported_fixed_length_array
                                     (exprSourceRange sizeEx) s3))))"

text \<open>
  The recovery that \<^verbatim>\<open>parseGenericArguments\<close> and \<^verbatim>\<open>parseTypeComposition\<close> share
  word for word: skip until any operator, then consume it when it starts with \<open>>\<close>.
\<close>

definition skipToClosingAngle :: "Parser \<Rightarrow> Parser" where
  "skipToClosingAngle s =
     (let s1 = skipUntilAnyOperator s in
      if startsWithGreater (Tok s1) then consumeStartingGreater s1 else s1)"

text \<open>
  The locals that the element callback of \<^verbatim>\<open>parseTypeTupleBody\<close> captures by
  reference. An unset \<^verbatim>\<open>SourceLoc\<close> local is the invalid location, 0.
\<close>

record TupleLocals =
  ElementsR :: "TypeRepr list"
  HadEllipsis :: bool
  EllipsisLoc :: nat
  InvalidFlag :: bool

text \<open>
  The end of the element callback, after the element was pushed: an \<open>=\<close> initializer
  is parsed and diagnosed; an ellipsis is consumed and is valid only right before the
  closing parenthesis.
\<close>

definition parseTupleElementRest ::
  "Collaborators \<Rightarrow> TupleLocals \<Rightarrow> Parser \<Rightarrow> bool \<times> TupleLocals \<times> Parser" where
  "parseTupleElementRest E acc s =
     (let s1 =
        (if tokIs (Tok s) tok_equal then
           (let equalLoc = tokLoc (Tok s) in
            case parseExpr E expected_initializer_expr (consumeToken s) of
              (None, s') \<Rightarrow> diagnose equalLoc tuple_type_init s'
            | (Some init, s') \<Rightarrow>
                diagnoseRange equalLoc tuple_type_init (equalLoc, exprEndLoc init) s')
         else s)
      in
      if tokIs (Tok s1) tok_ellipsis then
        (let ellipsisLoc = tokLoc (Tok s1); s2 = consumeToken s1 in
         if tokIs (Tok s2) tok_r_paren
         then (False, acc\<lparr>EllipsisLoc := ellipsisLoc, HadEllipsis := True\<rparr>, s2)
         else (False, acc\<lparr>EllipsisLoc := ellipsisLoc, InvalidFlag := True\<rparr>,
               diagnose ellipsisLoc unexpected_ellipsis_in_tuple s2))
      else (False, acc, s1))"

text \<open>
  The productions call each other through \<^verbatim>\<open>parseType\<close> only. Each is written
  first with that recursive call as the parameter \<open>PT\<close> (the functions named
  \<open>...With\<close>), then \<open>parseType\<close> ties the knot by recursion on fuel. The fuel bounds
  the depth of the descent and the iterations of the \<^verbatim>\<open>do ... while\<close> loops;
  \<open>None\<close> is "out of fuel", a result \<open>Some (None, s)\<close> is the C++ null pointer in
  state \<open>s\<close>.
\<close>

type_synonym TypeParser = "Diag \<Rightarrow> Parser \<Rightarrow> (TypeRepr option \<times> Parser) option"

text \<open>\<^verbatim>\<open>parseTypeAnnotation\<close>: the attribute list, then the type, then the wrapping.\<close>

definition parseTypeAnnotationWith ::
  "Collaborators \<Rightarrow> TypeParser \<Rightarrow> Diag \<Rightarrow> Parser \<Rightarrow> (TypeRepr option \<times> Parser) option" where
  "parseTypeAnnotationWith E PT message s =
     (case parseAttributeList E s of
        (failed, attrs, s1) \<Rightarrow>
          (case PT message s1 of
             None \<Rightarrow> None
           | Some (ty, s2) \<Rightarrow> Some (applyAttributeToType ty attrs, s2)))"

text \<open>
  The \<^verbatim>\<open>do ... while (consumeIf(tok::comma))\<close> loop of \<^verbatim>\<open>parseGenericArguments\<close>;
  \<open>True\<close> says that an argument type failed to parse.
\<close>

fun parseGenericArgumentsLoop ::
  "TypeParser \<Rightarrow> nat \<Rightarrow> TypeRepr list \<Rightarrow> Parser \<Rightarrow> (bool \<times> TypeRepr list \<times> Parser) option" where
  "parseGenericArgumentsLoop PT 0 Args s = None"
| "parseGenericArgumentsLoop PT (Suc n) Args s =
     (case PT expected_type s of
        None \<Rightarrow> None
      | Some (None, s1) \<Rightarrow> Some (True, Args, s1)
      | Some (Some Ty, s1) \<Rightarrow>
          (case consumeIf tok_comma s1 of
             (True, s2) \<Rightarrow> parseGenericArgumentsLoop PT n (Args @ [Ty]) s2
           | (False, s2) \<Rightarrow> Some (False, Args @ [Ty], s2)))"

text \<open>
  \<^verbatim>\<open>parseGenericArguments\<close>: \<open>True\<close> is failure. Of its three reference parameters
  the caller reads only the arguments, which are returned.
\<close>

definition parseGenericArgumentsWith ::
  "TypeParser \<Rightarrow> nat \<Rightarrow> Parser \<Rightarrow> (bool \<times> TypeRepr list \<times> Parser) option" where
  "parseGenericArgumentsWith PT n s =
     (let LAngleLoc = tokLoc (Tok s); s1 = consumeStartingLess s in
      case parseGenericArgumentsLoop PT n [] s1 of
        None \<Rightarrow> None
      | Some (True, Args, s2) \<Rightarrow> Some (True, Args, skipToClosingAngle s2)
      | Some (False, Args, s2) \<Rightarrow>
          if \<not> startsWithGreater (Tok s2) then
            Some (True, Args,
                  skipToClosingAngle
                    (diagnose LAngleLoc opening_angle
                       (diagnose (tokLoc (Tok s2)) expected_rangle_generic_arg_list s2)))
          else Some (False, Args, consumeStartingGreater s2))"

text \<open>The \<^verbatim>\<open>while (true)\<close> loop of \<^verbatim>\<open>parseTypeIdentifier\<close> over the dotted path.\<close>

fun parseTypeIdentifierLoop ::
  "Collaborators \<Rightarrow> TypeParser \<Rightarrow> nat \<Rightarrow> Component list \<Rightarrow> Parser \<Rightarrow>
   (Component list option \<times> Parser) option" where
  "parseTypeIdentifierLoop E PT 0 ComponentsR s = None"
| "parseTypeIdentifierLoop E PT (Suc n) ComponentsR s =
     (case parseIdentifier E expected_identifier_in_dotted_type s of
        (None, s1) \<Rightarrow> Some (None, s1)
      | (Some (Name, Loc), s1) \<Rightarrow>
          (case (if startsWithLess (Tok s1) then parseGenericArgumentsWith PT n s1
                 else Some (False, [], s1)) of
             None \<Rightarrow> None
           | Some (True, GenericArgs, s2) \<Rightarrow> Some (None, s2)
           | Some (False, GenericArgs, s2) \<Rightarrow>
               (let ComponentsR1 = ComponentsR @ [Component Loc Name GenericArgs None] in
                if (tokIs (Tok s2) tok_period \<or> tokIs (Tok s2) tok_period_prefix) \<and>
                   tokIsNot (peekToken s2) tok_kw_metatype
                then parseTypeIdentifierLoop E PT n ComponentsR1 (consumeToken s2)
                else Some (Some ComponentsR1, s2))))"

text \<open>
  \<^verbatim>\<open>parseTypeIdentifier\<close>: the components of the \<^verbatim>\<open>IdentTypeRepr\<close>, after scope
  lookup on the first.
\<close>

definition lookupFirstComponent :: "Collaborators \<Rightarrow> Component list \<Rightarrow> Component list" where
  "lookupFirstComponent E ComponentsR =
     (case ComponentsR of
        [] \<Rightarrow> []
      | c # cs \<Rightarrow>
          (case lookupInScope E (compName c) of
             None \<Rightarrow> c # cs
           | Some Entry \<Rightarrow> setValue Entry c # cs))"

definition parseTypeIdentifierWith ::
  "Collaborators \<Rightarrow> TypeParser \<Rightarrow> nat \<Rightarrow> Parser \<Rightarrow> (Component list option \<times> Parser) option" where
  "parseTypeIdentifierWith E PT n s =
     (if tokIsNot (Tok s) tok_identifier \<and> tokIsNot (Tok s) tok_kw_This then
        Some (None, diagnose (tokLoc (Tok s)) expected_identifier_for_type s)
      else
        (case parseTypeIdentifierLoop E PT n [] s of
           None \<Rightarrow> None
         | Some (None, s1) \<Rightarrow> Some (None, s1)
         | Some (Some ComponentsR, s1) \<Rightarrow> Some (Some (lookupFirstComponent E ComponentsR), s1)))"

text \<open>
  The \<^verbatim>\<open>do ... while\<close> loop of \<^verbatim>\<open>parseTypeComposition\<close>; it answers the local
  \<^verbatim>\<open>Invalid\<close> and the protocols.
\<close>

fun parseTypeCompositionLoop ::
  "Collaborators \<Rightarrow> TypeParser \<Rightarrow> nat \<Rightarrow> Component list list \<Rightarrow> Parser \<Rightarrow>
   (bool \<times> Component list list \<times> Parser) option" where
  "parseTypeCompositionLoop E PT 0 Protocols s = None"
| "parseTypeCompositionLoop E PT (Suc n) Protocols s =
     (case parseTypeIdentifierWith E PT n s of
        None \<Rightarrow> None
      | Some (None, s1) \<Rightarrow> Some (True, Protocols, s1)
      | Some (Some Protocol, s1) \<Rightarrow>
          (case consumeIf tok_comma s1 of
             (True, s2) \<Rightarrow> parseTypeCompositionLoop E PT n (Protocols @ [Protocol]) s2
           | (False, s2) \<Rightarrow> Some (False, Protocols @ [Protocol], s2)))"

definition parseTypeCompositionWith ::
  "Collaborators \<Rightarrow> TypeParser \<Rightarrow> nat \<Rightarrow> Parser \<Rightarrow> (TypeRepr option \<times> Parser) option" where
  "parseTypeCompositionWith E PT n s =
     (let ProtocolLoc = tokLoc (Tok s); s1 = consumeToken s in
      if \<not> startsWithLess (Tok s1) then
        Some (None, diagnose (tokLoc (Tok s1)) expected_langle_protocol s1)
      else
        (let LAngleLoc = tokLoc (Tok s1); s2 = consumeStartingLess s1 in
         if startsWithGreater (Tok s2) then
           Some (Some (ProtocolCompositionTypeRepr [] ProtocolLoc (LAngleLoc, tokLoc (Tok s2))),
                 consumeStartingGreater s2)
         else
           (case parseTypeCompositionLoop E PT n [] s2 of
              None \<Rightarrow> None
            | Some (Invalid, Protocols, s3) \<Rightarrow>
                if \<not> startsWithGreater (Tok s3) then
                  (let s4 = (if \<not> Invalid then
                               diagnose LAngleLoc opening_angle
                                 (diagnose (tokLoc (Tok s3)) expected_rangle_protocol s3)
                             else s3);
                       s5 = skipUntilAnyOperator s4;
                       EndLoc = (if startsWithGreater (Tok s5) then tokLoc (Tok s5)
                                 else tokLoc (Tok s3));
                       s6 = (if startsWithGreater (Tok s5) then consumeStartingGreater s5
                             else s5)
                   in Some (Some (ProtocolCompositionTypeRepr Protocols ProtocolLoc
                                    (LAngleLoc, EndLoc)), s6))
                else
                  Some (Some (ProtocolCompositionTypeRepr Protocols ProtocolLoc
                                (LAngleLoc, tokLoc (Tok s3))), consumeStartingGreater s3))))"

text \<open>The element callback that \<^verbatim>\<open>parseTypeTupleBody\<close> hands to \<^verbatim>\<open>parseList\<close>.\<close>

definition parseTypeTupleElement ::
  "Collaborators \<Rightarrow> TypeParser \<Rightarrow> TupleLocals \<Rightarrow> Parser \<Rightarrow> (bool \<times> TupleLocals \<times> Parser) option" where
  "parseTypeTupleElement E PT acc s =
     (if isStartOfBindingName E (Tok s) \<and> tokIs (peekToken s) tok_colon then
        (let name = tokText (Tok s); nameLoc = tokLoc (Tok s);
             s1 = consumeToken s; s2 = consumeToken s1 in
         case parseTypeAnnotationWith E PT expected_type s2 of
           None \<Rightarrow> None
         | Some (None, s3) \<Rightarrow> Some (True, acc, s3)
         | Some (Some type, s3) \<Rightarrow>
             Some (parseTupleElementRest E
                     (acc\<lparr>ElementsR := ElementsR acc @ [NamedTypeRepr name type nameLoc]\<rparr>) s3))
      else
        (case parseTypeAnnotationWith E PT expected_type s of
           None \<Rightarrow> None
         | Some (None, s3) \<Rightarrow> Some (True, acc, s3)
         | Some (Some type, s3) \<Rightarrow>
             Some (parseTupleElementRest E (acc\<lparr>ElementsR := ElementsR acc @ [type]\<rparr>) s3)))"

definition parseTypeTupleBodyWith ::
  "Collaborators \<Rightarrow> TypeParser \<Rightarrow> nat \<Rightarrow> Parser \<Rightarrow> (TypeRepr option \<times> Parser) option" where
  "parseTypeTupleBodyWith E PT n s =
     (let LPLoc = tokLoc (Tok s); s1 = consumeToken s in
      case parseList tok_r_paren LPLoc tok_comma expected_rparen_tuple_type_list
             (parseTypeTupleElement E PT) n
             \<lparr>ElementsR = [], HadEllipsis = False, EllipsisLoc = 0, InvalidFlag = False\<rparr> s1 of
        None \<Rightarrow> None
      | Some (Invalid, acc, s2) \<Rightarrow>
          if HadEllipsis acc \<and> ElementsR acc = [] then
            Some (None, diagnose (EllipsisLoc acc) empty_tuple_ellipsis s2)
          else
            Some (Some (TupleTypeRepr (ElementsR acc) (LPLoc, tokLoc (Tok s2))
                          (if HadEllipsis acc then Some (EllipsisLoc acc) else None)), s2))"

text \<open>
  \<^verbatim>\<open>parseType\<close>: the simple type by the kind of the current token, then the
  metatype suffixes, then an arrow (which ends the production), then the optional
  suffixes and an array suffix.
\<close>

definition parseTypeSimple ::
  "Collaborators \<Rightarrow> TypeParser \<Rightarrow> nat \<Rightarrow> Diag \<Rightarrow> Parser \<Rightarrow> (TypeRepr option \<times> Parser) option" where
  "parseTypeSimple E PT n MessageID s =
     (if tokIs (Tok s) tok_kw_This \<or> tokIs (Tok s) tok_identifier then
        (case parseTypeIdentifierWith E PT n s of
           None \<Rightarrow> None
         | Some (r, s1) \<Rightarrow> Some (map_option IdentTypeRepr r, s1))
      else if tokIs (Tok s) tok_kw_protocol then parseTypeCompositionWith E PT n s
      else if tokIs (Tok s) tok_l_paren then parseTypeTupleBodyWith E PT n s
      else Some (None, diagnose (tokLoc (Tok s)) MessageID s))"

definition parseTypeBody ::
  "Collaborators \<Rightarrow> TypeParser \<Rightarrow> nat \<Rightarrow> Diag \<Rightarrow> Parser \<Rightarrow> (TypeRepr option \<times> Parser) option" where
  "parseTypeBody E PT n MessageID s =
     (case parseTypeSimple E PT n MessageID s of
        None \<Rightarrow> None
      | Some (None, s1) \<Rightarrow> Some (None, s1)
      | Some (Some ty, s1) \<Rightarrow>
          (case parseMetatypeSuffixes ty s1 of
             (ty2, s2) \<Rightarrow>
               (case consumeIf tok_arrow s2 of
                  (True, s3) \<Rightarrow>
                    (case PT expected_type_function_result s3 of
                       None \<Rightarrow> None
                     | Some (None, s4) \<Rightarrow> Some (None, s4)
                     | Some (Some SecondHalf, s4) \<Rightarrow>
                         Some (Some (FunctionTypeRepr ty2 SecondHalf), s4))
                | (False, s3) \<Rightarrow>
                    (case parseOptionalSuffixes ty2 s3 of
                       (ty4, s4) \<Rightarrow>
                         if isFollowingLSquare (Tok s4) then parseTypeArray E n ty4 s4
                         else Some (Some ty4, s4)))))"

primrec parseType :: "Collaborators \<Rightarrow> nat \<Rightarrow> TypeParser" where
  "parseType E 0 = (\<lambda>MessageID s. None)"
| "parseType E (Suc n) = parseTypeBody E (parseType E n) n"

text \<open>The productions at a given fuel, under the names of the source.\<close>

definition parseTypeAnnotation ::
  "Collaborators \<Rightarrow> nat \<Rightarrow> Diag \<Rightarrow> Parser \<Rightarrow> (TypeRepr option \<times> Parser) option" where
  "parseTypeAnnotation E n = parseTypeAnnotationWith E (parseType E n)"

definition parseGenericArguments ::
  "Collaborators \<Rightarrow> nat \<Rightarrow> Parser \<Rightarrow> (bool \<times> TypeRepr list \<times> Parser) option" where
  "parseGenericArguments E n = parseGenericArgumentsWith (parseType E n) n"

definition parseTypeIdentifier ::
  "Collaborators \<Rightarrow> nat \<Rightarrow> Parser \<Rightarrow> (Component list option \<times> Parser) option" where
  "parseTypeIdentifier E n = parseTypeIdentifierWith E (parseType E n) n"

definition parseTypeComposition ::
  "Collaborators \<Rightarrow> nat \<Rightarrow> Parser \<Rightarrow> (TypeRepr option \<times> Parser) option" where
  "parseTypeComposition E n = parseTypeCompositionWith E (parseType E n) n"

definition parseTypeTupleBody ::
  "Collaborators \<Rightarrow> nat \<Rightarrow> Parser \<Rightarrow> (TypeRepr option \<times> Parser) option" where
  "parseTypeTupleBody E n = parseTypeTupleBodyWith E (parseType E n) n"

section \<open>The speculative prober\<close>

text \<open>
  The prober answers a boolean and the state it stopped in. As for the committed
  parser, each production is written with the recursive call of \<^verbatim>\<open>canParseType\<close>
  as the parameter \<open>CT\<close>, and \<open>canParseType\<close> recurs on fuel.
\<close>

type_synonym TypeProber = "Parser \<Rightarrow> (bool \<times> Parser) option"

text \<open>The loop of \<^verbatim>\<open>canParseType\<close> over \<^verbatim>\<open>.metatype\<close> suffixes.\<close>

function skipMetatypeSuffixes :: "Parser \<Rightarrow> Parser" where
  "skipMetatypeSuffixes s =
     (if (tokIs (Tok s) tok_period \<or> tokIs (Tok s) tok_period_prefix) \<and>
         tokIs (peekToken s) tok_kw_metatype
      then skipMetatypeSuffixes (consumeToken (consumeToken s))
      else s)"
  by pat_completeness auto
termination
  by (relation "measure (\<lambda>s. length (toks s))")
     (auto simp: Tok_def tokIs_def eofToken_def consumeToken_def split: list.splits)

declare skipMetatypeSuffixes.simps [simp del]

text \<open>
  The loop \<^verbatim>\<open>while (!Tok.isAtStartOfLine() && consumeIf(tok::question));\<close> of
  \<^verbatim>\<open>canParseType\<close>.
\<close>

function skipOptionalSuffixes :: "Parser \<Rightarrow> Parser" where
  "skipOptionalSuffixes s =
     (if \<not> isAtStartOfLine (Tok s) then
        (case consumeIf tok_question s of
           (True, s1) \<Rightarrow> skipOptionalSuffixes s1
         | (False, s1) \<Rightarrow> s1)
      else s)"
  by pat_completeness auto
termination
  by (relation "measure (\<lambda>s. length (toks s))")
     (auto simp: Tok_def tokIs_def eofToken_def consumeToken_def consumeIf_def
           split: list.splits if_splits)

declare skipOptionalSuffixes.simps [simp del]

text \<open>\<^verbatim>\<open>canParseTypeArray\<close>: only empty bracket pairs are accepted.\<close>

fun canParseTypeArray :: "nat \<Rightarrow> Parser \<Rightarrow> (bool \<times> Parser) option" where
  "canParseTypeArray 0 s = None"
| "canParseTypeArray (Suc n) s =
     (let s1 = consumeToken s in
      if tokIs (Tok s1) tok_r_square then
        (let s2 = consumeToken s1 in
         if isFollowingLSquare (Tok s2) then canParseTypeArray n s2
         else Some (True, s2))
      else Some (False, s1))"

fun canParseGenericArgumentsLoop :: "TypeProber \<Rightarrow> nat \<Rightarrow> Parser \<Rightarrow> (bool \<times> Parser) option" where
  "canParseGenericArgumentsLoop CT 0 s = None"
| "canParseGenericArgumentsLoop CT (Suc n) s =
     (case CT s of
        None \<Rightarrow> None
      | Some (False, s1) \<Rightarrow> Some (False, s1)
      | Some (True, s1) \<Rightarrow>
          (case consumeIf tok_comma s1 of
             (True, s2) \<Rightarrow> canParseGenericArgumentsLoop CT n s2
           | (False, s2) \<Rightarrow> Some (True, s2)))"

definition canParseGenericArgumentsWith :: "TypeProber \<Rightarrow> nat \<Rightarrow> Parser \<Rightarrow> (bool \<times> Parser) option" where
  "canParseGenericArgumentsWith CT n s =
     (if \<not> startsWithLess (Tok s) then Some (False, s)
      else
        (case canParseGenericArgumentsLoop CT n (consumeStartingLess s) of
           None \<Rightarrow> None
         | Some (False, s2) \<Rightarrow> Some (False, s2)
         | Some (True, s2) \<Rightarrow>
             if \<not> startsWithGreater (Tok s2) then Some (False, s2)
             else Some (True, consumeStartingGreater s2)))"

fun canParseTypeIdentifierLoop ::
  "Collaborators \<Rightarrow> TypeProber \<Rightarrow> nat \<Rightarrow> Parser \<Rightarrow> (bool \<times> Parser) option" where
  "canParseTypeIdentifierLoop E CT 0 s = None"
| "canParseTypeIdentifierLoop E CT (Suc n) s =
     (if isIdentifierKeyword E (tokKind (Tok s)) \<or> tokIs (Tok s) tok_identifier then
        (let s1 = consumeToken s in
         case (if startsWithLess (Tok s1) then canParseGenericArgumentsWith CT n s1
               else Some (True, s1)) of
           None \<Rightarrow> None
         | Some (False, s2) \<Rightarrow> Some (False, s2)
         | Some (True, s2) \<Rightarrow>
             if (tokIs (Tok s2) tok_period \<or> tokIs (Tok s2) tok_period_prefix) \<and>
                tokIsNot (peekToken s2) tok_kw_metatype
             then canParseTypeIdentifierLoop E CT n (consumeToken s2)
             else Some (True, s2))
      else Some (False, s))"

definition canParseTypeIdentifierWith ::
  "Collaborators \<Rightarrow> TypeProber \<Rightarrow> nat \<Rightarrow> Parser \<Rightarrow> (bool \<times> Parser) option" where
  "canParseTypeIdentifierWith E CT n s =
     (if tokIsNot (Tok s) tok_identifier \<and> tokIsNot (Tok s) tok_kw_This then Some (False, s)
      else canParseTypeIdentifierLoop E CT n s)"

fun canParseTypeCompositionLoop ::
  "Collaborators \<Rightarrow> TypeProber \<Rightarrow> nat \<Rightarrow> Parser \<Rightarrow> (bool \<times> Parser) option" where
  "canParseTypeCompositionLoop E CT 0 s = None"
| "canParseTypeCompositionLoop E CT (Suc n) s =
     (case canParseTypeIdentifierWith E CT n s of
        None \<Rightarrow> None
      | Some (False, s1) \<Rightarrow> Some (False, s1)
      | Some (True, s1) \<Rightarrow>
          (case consumeIf tok_comma s1 of
             (True, s2) \<Rightarrow> canParseTypeCompositionLoop E CT n s2
           | (False, s2) \<Rightarrow> Some (True, s2)))"

definition canParseTypeCompositionWith ::
  "Collaborators \<Rightarrow> TypeProber \<Rightarrow> nat \<Rightarrow> Parser \<Rightarrow> (bool \<times> Parser) option" where
  "canParseTypeCompositionWith E CT n s =
     (let s1 = consumeToken s in
      if \<not> startsWithLess (Tok s1) then Some (False, s1)
      else
        (let s2 = consumeStartingLess s1 in
         if startsWithGreater (Tok s2) then Some (True, consumeStartingGreater s2)
         else
           (case canParseTypeCompositionLoop E CT n s2 of
              None \<Rightarrow> None
            | Some (False, s3) \<Rightarrow> Some (False, s3)
            | Some (True, s3) \<Rightarrow>
                if \<not> startsWithGreater (Tok s3) then Some (False, s3)
                else Some (True, consumeStartingGreater s3))))"

text \<open>
  The two skipping loops of \<^verbatim>\<open>canParseTypeTupleBody\<close>, over an attribute bracket
  and over a default value. \<^verbatim>\<open>skipSingle\<close> is the collaborator's; the fuel bounds
  the iterations.
\<close>

fun skipAttributeTokens :: "Collaborators \<Rightarrow> nat \<Rightarrow> Parser \<Rightarrow> Parser option" where
  "skipAttributeTokens E 0 s = None"
| "skipAttributeTokens E (Suc n) s =
     (if tokIsNot (Tok s) tok_eof \<and> tokIsNot (Tok s) tok_r_brace \<and>
         tokIsNot (Tok s) tok_r_square \<and> tokIsNot (Tok s) tok_r_paren \<and>
         \<not> isStartOfDecl E (Tok s) (peekToken s)
      then skipAttributeTokens E n (skipSingle E s)
      else Some s)"

fun skipDefaultValueTokens :: "Collaborators \<Rightarrow> nat \<Rightarrow> Parser \<Rightarrow> Parser option" where
  "skipDefaultValueTokens E 0 s = None"
| "skipDefaultValueTokens E (Suc n) s =
     (if tokIsNot (Tok s) tok_eof \<and> tokIsNot (Tok s) tok_r_paren \<and>
         tokIsNot (Tok s) tok_r_brace \<and> tokIsNot (Tok s) tok_ellipsis \<and>
         tokIsNot (Tok s) tok_comma \<and> \<not> isStartOfDecl E (Tok s) (peekToken s)
      then skipDefaultValueTokens E n (skipSingle E s)
      else Some s)"

text \<open>
  The "Parse attributes" block, which stands twice in \<^verbatim>\<open>canParseTypeTupleBody\<close>:
  \<open>False\<close> when the opened bracket is not closed.
\<close>

definition canSkipAttributes :: "Collaborators \<Rightarrow> nat \<Rightarrow> Parser \<Rightarrow> (bool \<times> Parser) option" where
  "canSkipAttributes E n s =
     (case consumeIf tok_l_square s of
        (True, s1) \<Rightarrow>
          (case skipAttributeTokens E n s1 of
             None \<Rightarrow> None
           | Some s2 \<Rightarrow> Some (consumeIf tok_r_square s2))
      | (False, s1) \<Rightarrow> Some (True, s1))"

definition canSkipDefaultValue :: "Collaborators \<Rightarrow> nat \<Rightarrow> Parser \<Rightarrow> Parser option" where
  "canSkipDefaultValue E n s =
     (case consumeIf tok_equal s of
        (True, s1) \<Rightarrow> skipDefaultValueTokens E n s1
      | (False, s1) \<Rightarrow> Some s1)"

text \<open>The \<^verbatim>\<open>do ... while\<close> loop of \<^verbatim>\<open>canParseTypeTupleBody\<close> over the elements.\<close>

fun canParseTypeTupleBodyLoop ::
  "Collaborators \<Rightarrow> TypeProber \<Rightarrow> nat \<Rightarrow> Parser \<Rightarrow> (bool \<times> Parser) option" where
  "canParseTypeTupleBodyLoop E CT 0 s = None"
| "canParseTypeTupleBodyLoop E CT (Suc n) s =
     (if tokIs (Tok s) tok_identifier \<and> tokIs (peekToken s) tok_colon then
        (case canSkipAttributes E n (consumeToken (consumeToken s)) of
           None \<Rightarrow> None
         | Some (False, s2) \<Rightarrow> Some (False, s2)
         | Some (True, s2) \<Rightarrow>
             (case CT s2 of
                None \<Rightarrow> None
              | Some (False, s3) \<Rightarrow> Some (False, s3)
              | Some (True, s3) \<Rightarrow>
                  (case canSkipDefaultValue E n s3 of
                     None \<Rightarrow> None
                   | Some s4 \<Rightarrow>
                       (case consumeIf tok_comma s4 of
                          (True, s5) \<Rightarrow> canParseTypeTupleBodyLoop E CT n s5
                        | (False, s5) \<Rightarrow> Some (True, s5)))))
      else
        (case canSkipAttributes E n s of
           None \<Rightarrow> None
         | Some (False, s2) \<Rightarrow> Some (False, s2)
         | Some (True, s2) \<Rightarrow>
             (case CT s2 of
                None \<Rightarrow> None
              | Some (False, s3) \<Rightarrow> Some (False, s3)
              | Some (True, s3) \<Rightarrow>
                  (case consumeIf tok_comma s3 of
                     (True, s4) \<Rightarrow> canParseTypeTupleBodyLoop E CT n s4
                   | (False, s4) \<Rightarrow> Some (True, s4)))))"

definition canParseTypeTupleBodyWith ::
  "Collaborators \<Rightarrow> TypeProber \<Rightarrow> nat \<Rightarrow> Parser \<Rightarrow> (bool \<times> Parser) option" where
  "canParseTypeTupleBodyWith E CT n s =
     (case (if tokIsNot (Tok s) tok_r_paren \<and> tokIsNot (Tok s) tok_r_brace \<and>
               tokIsNot (Tok s) tok_ellipsis \<and> \<not> isStartOfDecl E (Tok s) (peekToken s)
            then canParseTypeTupleBodyLoop E CT n s
            else Some (True, s)) of
        None \<Rightarrow> None
      | Some (False, s1) \<Rightarrow> Some (False, s1)
      | Some (True, s1) \<Rightarrow>
          (let s2 = (if tokIs (Tok s1) tok_ellipsis then consumeToken s1 else s1) in
           if tokIs (Tok s2) tok_r_paren then Some (True, consumeToken s2)
           else Some (False, s2)))"

definition canParseTypeSimple ::
  "Collaborators \<Rightarrow> TypeProber \<Rightarrow> nat \<Rightarrow> Parser \<Rightarrow> (bool \<times> Parser) option" where
  "canParseTypeSimple E CT n s =
     (if tokIs (Tok s) tok_kw_This \<or> tokIs (Tok s) tok_identifier then
        canParseTypeIdentifierWith E CT n s
      else if tokIs (Tok s) tok_kw_protocol then canParseTypeCompositionWith E CT n s
      else if tokIs (Tok s) tok_l_paren then canParseTypeTupleBodyWith E CT n (consumeToken s)
      else Some (False, s))"

definition canParseTypeBody ::
  "Collaborators \<Rightarrow> TypeProber \<Rightarrow> nat \<Rightarrow> Parser \<Rightarrow> (bool \<times> Parser) option" where
  "canParseTypeBody E CT n s =
     (case canParseTypeSimple E CT n s of
        None \<Rightarrow> None
      | Some (False, s1) \<Rightarrow> Some (False, s1)
      | Some (True, s1) \<Rightarrow>
          (let s2 = skipMetatypeSuffixes s1 in
           case consumeIf tok_arrow s2 of
             (True, s3) \<Rightarrow> CT s3
           | (False, s3) \<Rightarrow>
               (let s4 = skipOptionalSuffixes s3 in
                if isFollowingLSquare (Tok s4) then canParseTypeArray n s4
                else Some (True, s4))))"

primrec canParseType :: "Collaborators \<Rightarrow> nat \<Rightarrow> TypeProber" where
  "canParseType E 0 = (\<lambda>s. None)"
| "canParseType E (Suc n) = canParseTypeBody E (canParseType E n) n"

definition canParseGenericArguments :: "Collaborators \<Rightarrow> nat \<Rightarrow> Parser \<Rightarrow> (bool \<times> Parser) option" where
  "canParseGenericArguments E n = canParseGenericArgumentsWith (canParseType E n) n"

definition canParseTypeIdentifier :: "Collaborators \<Rightarrow> nat \<Rightarrow> Parser \<Rightarrow> (bool \<times> Parser) option" where
  "canParseTypeIdentifier E n = canParseTypeIdentifierWith E (canParseType E n) n"

definition canParseTypeComposition :: "Collaborators \<Rightarrow> nat \<Rightarrow> Parser \<Rightarrow> (bool \<times> Parser) option" where
  "canParseTypeComposition E n = canParseTypeCompositionWith E (canParseType E n) n"

definition canParseTypeTupleBody :: "Collaborators \<Rightarrow> nat \<Rightarrow> Parser \<Rightarrow> (bool \<times> Parser) option" where
  "canParseTypeTupleBody E n = canParseTypeTupleBodyWith E (canParseType E n) n"

text \<open>
  \<^verbatim>\<open>isGenericTypeDisambiguatingToken\<close>, case by case as in the source. For
  \<open>tok_period_prefix\<close> it reads the character before the token's spelling.
\<close>

definition isGenericTypeDisambiguatingToken :: "Token \<Rightarrow> bool" where
  "isGenericTypeDisambiguatingToken t =
     (if tokKind t = tok_r_paren \<or> tokKind t = tok_r_square \<or> tokKind t = tok_l_brace \<or>
         tokKind t = tok_r_brace \<or> tokKind t = tok_period \<or> tokKind t = tok_comma \<or>
         tokKind t = tok_semi \<or> tokKind t = tok_eof then True
      else if tokKind t = tok_period_prefix then tokPrecedingChar t = CHR ''>''
      else if tokKind t = tok_l_paren \<or> tokKind t = tok_l_square then \<not> isAtStartOfLine t
      else False)"

text \<open>
  Modelled from the spec: \<^verbatim>\<open>BacktrackingScope\<close>, the transactional cursor of sections
  2 and 5, which snapshots the parser state on entry and restores it on every exit of
  the scope. Its class is declared in \<^verbatim>\<open>Parser.h\<close>, which is not among the sources.
\<close>

definition BacktrackingScope ::
  "(Parser \<Rightarrow> ('a \<times> Parser) option) \<Rightarrow> Parser \<Rightarrow> ('a \<times> Parser) option" where
  "BacktrackingScope body s =
     (case body s of None \<Rightarrow> None | Some (r, s1) \<Rightarrow> Some (r, s))"

definition canParseAsGenericArgumentList ::
  "Collaborators \<Rightarrow> nat \<Rightarrow> Parser \<Rightarrow> (bool \<times> Parser) option" where
  "canParseAsGenericArgumentList E n s =
     (if \<not> isAnyOperator (Tok s) \<or> tokText (Tok s) \<noteq> ''<'' then Some (False, s)
      else
        BacktrackingScope
          (\<lambda>s0. case canParseGenericArguments E n s0 of
                   None \<Rightarrow> None
                 | Some (True, s1) \<Rightarrow> Some (isGenericTypeDisambiguatingToken (Tok s1), s1)
                 | Some (False, s1) \<Rightarrow> Some (False, s1)) s)"

section \<open>A concrete instance for running the parser\<close>

text \<open>
  A token with no line break before it, preceded by a space.
\<close>

definition mkTok :: "tok \<Rightarrow> string \<Rightarrow> nat \<Rightarrow> Token" where
  "mkTok k txt l = \<lparr>tokKind = k, tokText = txt, tokLoc = l, tokAtStartOfLine = False,
     tokPrecedingChar = CHR '' ''\<rparr>"

definition startParser :: "Token list \<Rightarrow> Parser" where
  "startParser ts = \<lparr>toks = ts, diags = []\<rparr>"

text \<open>
  A small instance of the collaborators: \<^verbatim>\<open>This\<close> is the only identifier keyword; an
  expression is one integer literal; an attribute list is one bracketed identifier
  (anything else after the bracket is a diagnosed failure); a binding name starts with
  an identifier; no token starts a declaration; \<^verbatim>\<open>skipSingle\<close> skips one token; the
  scope is empty.
\<close>

definition exampleParseExpr :: "Diag \<Rightarrow> Parser \<Rightarrow> Expr option \<times> Parser" where
  "exampleParseExpr d s =
     (if tokIs (Tok s) tok_integer_literal
      then (Some (Expr (tokLoc (Tok s)) (tokLoc (Tok s) + length (tokText (Tok s)))),
            consumeToken s)
      else (None, diagnose (tokLoc (Tok s)) d s))"

definition exampleParseAttributeList :: "Parser \<Rightarrow> bool \<times> DeclAttributes \<times> Parser" where
  "exampleParseAttributeList s =
     (if tokIs (Tok s) tok_l_square then
        (let s1 = consumeToken s in
         if tokIs (Tok s1) tok_identifier \<and> tokIs (peekToken s1) tok_r_square
         then (False, [tokText (Tok s1)], consumeToken (consumeToken s1))
         else (True, [], diagnose (tokLoc (Tok s1)) (other_diag ''expected attribute name'') s1))
      else (False, [], s))"

definition exampleCollaborators :: Collaborators where
  "exampleCollaborators =
     \<lparr>isIdentifierKeyword = (\<lambda>k. k = tok_kw_This),
      parseExpr = exampleParseExpr,
      parseAttributeList = exampleParseAttributeList,
      isStartOfBindingName = (\<lambda>t. tokIs t tok_identifier),
      isStartOfDecl = (\<lambda>t u. False),
      skipSingle = consumeToken,
      lookupInScope = (\<lambda>name. None)\<rparr>"



section \<open>Relating the prober to the committed parser\<close>

text \<open>
  The kinds of the tokens from the cursor on. Splitting the leading angle bracket off an
  operator token leaves them as they are. A state \<open>s'\<close> is reached from \<open>s\<close> when
  its cursor stands at or after the cursor of \<open>s\<close> in the same token stream.
\<close>

definition kinds :: "Parser \<Rightarrow> tok list" where
  "kinds s = map tokKind (toks s)"

definition reaches :: "Parser \<Rightarrow> Parser \<Rightarrow> bool" where
  "reaches s s' = suffix (kinds s') (kinds s)"

text \<open>
  The token kinds a run may consume for the two modes to be comparable: no \<open>=\<close> (a
  default value in a tuple element, which the prober skips and the committed parser
  diagnoses), no ellipsis directly after an opening parenthesis (the tuple \<open>(...)\<close>),
  and no opening square bracket directly after an opening parenthesis, a comma or a
  colon (an attribute list in front of a tuple element, which is the attribute
  collaborator's to parse). A square bracket after a type, an ellipsis after a tuple
  element and every other token are allowed.
\<close>

fun plainKinds :: "tok list \<Rightarrow> bool" where
  "plainKinds (k # k' # ks) =
     (k \<noteq> tok_equal \<and> \<not> (k = tok_l_paren \<and> k' = tok_ellipsis) \<and>
      \<not> (k' = tok_l_square \<and> (k = tok_l_paren \<or> k = tok_comma \<or> k = tok_colon)) \<and>
      plainKinds (k' # ks))"
| "plainKinds [k] = (k \<noteq> tok_equal)"
| "plainKinds [] = True"

text \<open>
  The tokens between the cursor of \<open>s\<close> and the cursor of \<open>s'\<close>, those consumed on the
  way from \<open>s\<close> to \<open>s'\<close>, are plain. The tokens from \<open>s'\<close> on are not constrained.
\<close>

definition plainlyConsumed :: "Parser \<Rightarrow> Parser \<Rightarrow> bool" where
  "plainlyConsumed s s' =
     (let k = length (toks s) - length (toks s') in
      drop k (kinds s) = kinds s' \<and> plainKinds (take k (kinds s)))"

text \<open>
  What is asked of the collaborators. The expression parser only consumes tokens, only
  appends diagnostics, and diagnoses its own failures. The attribute-list parser only
  consumes tokens, only appends diagnostics, and leaves the state alone when the current
  token does not open an attribute list. \<^verbatim>\<open>skipSingle\<close> only consumes tokens. A
  binding name starts with an identifier, which is what the prober looks for in front
  of the colon of a tuple element. No token that starts a type starts a declaration.
\<close>

definition exprParserWellBehaved :: "Collaborators \<Rightarrow> bool" where
  "exprParserWellBehaved E =
     (\<forall>d s. suffix (toks (snd (parseExpr E d s))) (toks s) \<and>
            prefix (diags s) (diags (snd (parseExpr E d s))) \<and>
            (fst (parseExpr E d s) = None \<longrightarrow> diags (snd (parseExpr E d s)) \<noteq> diags s))"











text \<open>
  The weight of the remaining input: every token counts for one more than the length of
  its spelling, so that consuming a token and splitting off a leading angle bracket both
  make it smaller. The collaborator's \<^verbatim>\<open>skipSingle\<close> advances when it makes the
  weight smaller wherever the current token is not the end of input.
\<close>

definition tokenWeight :: "Parser \<Rightarrow> nat" where
  "tokenWeight s = sum_list (map (\<lambda>t. Suc (length (tokText t))) (toks s))"

definition skipSingleAdvances :: "Collaborators \<Rightarrow> bool" where
  "skipSingleAdvances E =
     (\<forall>s. tokIsNot (Tok s) tok_eof \<longrightarrow> tokenWeight (skipSingle E s) < tokenWeight s)"

text \<open>
  A prober shrinks when it never returns more input than it was given; it is total
  below a bound when it returns on every input lighter than the bound.
\<close>

definition shrinks :: "TypeProber \<Rightarrow> bool" where
  "shrinks CT = (\<forall>s b s'. CT s = Some (b, s') \<longrightarrow> tokenWeight s' \<le> tokenWeight s)"

definition totalBelow :: "TypeProber \<Rightarrow> nat \<Rightarrow> bool" where
  "totalBelow CT B = (\<forall>s. tokenWeight s < B \<longrightarrow> CT s \<noteq> None)"


section \<open>Basic facts about the primitives\<close>

lemma Tok_update_toks [simp]: "Tok (s\<lparr>toks := t # ts\<rparr>) = t"
  by (simp add: Tok_def)

lemma diags_consumeToken [simp]: "diags (consumeToken s) = diags s"
  by (simp add: consumeToken_def)

lemma diags_consumeStartingCharacter [simp]: "diags (consumeStartingCharacter s) = diags s"
  by (simp add: consumeStartingCharacter_def consumeToken_def split: list.splits)

lemma diags_consumeStartingLess [simp]: "diags (consumeStartingLess s) = diags s"
  by (simp add: consumeStartingLess_def)

lemma diags_consumeStartingGreater [simp]: "diags (consumeStartingGreater s) = diags s"
  by (simp add: consumeStartingGreater_def)

lemma diags_skipUntilAnyOperator [simp]: "diags (skipUntilAnyOperator s) = diags s"
  by (simp add: skipUntilAnyOperator_def)

lemma diags_skipToClosingAngle [simp]: "diags (skipToClosingAngle s) = diags s"
  by (simp add: skipToClosingAngle_def Let_def)

lemma diags_diagnose [simp]: "diags (diagnose l d s) = diags s @ [(l, d, None)]"
  by (simp add: diagnose_def)

lemma diags_diagnoseRange [simp]: "diags (diagnoseRange l d r s) = diags s @ [(l, d, Some r)]"
  by (simp add: diagnoseRange_def)

lemma weight_consumeToken: "tokenWeight (consumeToken s) \<le> tokenWeight s"
  by (cases "toks s") (simp_all add: tokenWeight_def consumeToken_def)

lemma weight_consumeToken_less: "toks s \<noteq> [] \<Longrightarrow> tokenWeight (consumeToken s) < tokenWeight s"
  by (cases "toks s") (simp_all add: tokenWeight_def consumeToken_def)

lemma Tok_not_eof_nonempty: "tokKind (Tok s) \<noteq> tok_eof \<Longrightarrow> toks s \<noteq> []"
  by (auto simp: Tok_def eofToken_def)

lemma weight_consumeToken_is:
  "tokIs (Tok s) k \<Longrightarrow> k \<noteq> tok_eof \<Longrightarrow> tokenWeight (consumeToken s) < tokenWeight s"
  by (rule weight_consumeToken_less) (auto simp: tokIs_def dest: Tok_not_eof_nonempty)

lemma weight_consumeStartingCharacter:
  "tokenWeight (consumeStartingCharacter s) \<le> tokenWeight s"
  by (auto simp: consumeStartingCharacter_def tokenWeight_def consumeToken_def split: list.splits)

lemma weight_consumeStartingCharacter_less:
  "toks s \<noteq> [] \<Longrightarrow> tokenWeight (consumeStartingCharacter s) < tokenWeight s"
  by (auto simp: consumeStartingCharacter_def tokenWeight_def consumeToken_def split: list.splits)

lemma isAnyOperator_nonempty: "isAnyOperator (Tok s) \<Longrightarrow> toks s \<noteq> []"
  by (auto simp: isAnyOperator_def tokIs_def dest!: Tok_not_eof_nonempty[OF _] simp: Tok_def eofToken_def)

lemma weight_consumeStartingLess:
  "startsWithLess (Tok s) \<Longrightarrow> tokenWeight (consumeStartingLess s) < tokenWeight s"
  by (simp add: consumeStartingLess_def startsWithLess_def weight_consumeStartingCharacter_less
        isAnyOperator_nonempty)

lemma weight_consumeStartingGreater_le:
  "tokenWeight (consumeStartingGreater s) \<le> tokenWeight s"
  by (simp add: consumeStartingGreater_def weight_consumeStartingCharacter)

lemma weight_consumeIf:
  "consumeIf k s = (b, s') \<Longrightarrow> tokenWeight s' \<le> tokenWeight s"
  by (auto simp: consumeIf_def weight_consumeToken split: if_splits)

lemma weight_consumeIf_True:
  "consumeIf k s = (True, s') \<Longrightarrow> k \<noteq> tok_eof \<Longrightarrow> tokenWeight s' < tokenWeight s"
  by (auto simp: consumeIf_def weight_consumeToken_is split: if_splits)

lemma weight_suffix: "suffix (toks s') (toks s) \<Longrightarrow> tokenWeight s' \<le> tokenWeight s"
  by (auto simp: suffix_def tokenWeight_def)

lemma weight_parseExpr:
  "exprParserWellBehaved E \<Longrightarrow> parseExpr E d s = (r, s') \<Longrightarrow> tokenWeight s' \<le> tokenWeight s"
  using weight_suffix[of s' s] unfolding exprParserWellBehaved_def
  by (metis snd_conv)

section \<open>Array nesting\<close>

text \<open>
  C9. Parsing the slice syntax \<open>T[][]\<close>: when the tokens at the cursor are two empty
  bracket pairs (the second opening bracket not across a line break) and no further
  bracket clause follows, \<open>parseTypeArray\<close> on base \<open>T\<close> returns the array node of
  the first bracket pair, whose base is the array node that the recursive call built
  for the second bracket pair, whose base is \<open>T\<close>; the cursor is after the brackets.
\<close>

theorem parseTypeArray_slice_of_slice:
  assumes "toks s = lsquare1 # rsquare1 # lsquare2 # rsquare2 # rest"
    and "tokIs rsquare1 tok_r_square"
    and "isFollowingLSquare lsquare2"
    and "tokIs rsquare2 tok_r_square"
    and "\<not> isFollowingLSquare (Tok (s\<lparr>toks := rest\<rparr>))"
  shows "parseTypeArray E (Suc (Suc n)) T s =
           Some (Some (ArrayTypeRepr
                         (ArrayTypeRepr T None (tokLoc lsquare2, tokLoc rsquare2))
                         None (tokLoc lsquare1, tokLoc rsquare1)),
                 s\<lparr>toks := rest\<rparr>)"
  using assms by (simp add: Tok_def consumeToken_def Let_def)

theorem parseTypeArray_slice_of_slice_witness:
  "parseTypeArray exampleCollaborators 2 (IdentTypeRepr [Component 0 ''T'' [] None])
     (startParser [mkTok tok_l_square ''['' 1, mkTok tok_r_square '']'' 2,
                   mkTok tok_l_square ''['' 3, mkTok tok_r_square '']'' 4]) =
   Some (Some (ArrayTypeRepr
                 (ArrayTypeRepr (IdentTypeRepr [Component 0 ''T'' [] None]) None (3, 4))
                 None (1, 2)),
         startParser []) \<and>
   parseType exampleCollaborators 3 expected_type
     (startParser [mkTok tok_identifier ''T'' 0,
                   mkTok tok_l_square ''['' 1, mkTok tok_r_square '']'' 2,
                   mkTok tok_l_square ''['' 3, mkTok tok_r_square '']'' 4]) =
   Some (Some (ArrayTypeRepr
                 (ArrayTypeRepr (IdentTypeRepr [Component 0 ''T'' [] None]) None (3, 4))
                 None (1, 2)),
         startParser [])"
proof -
  have array:
    "parseTypeArray exampleCollaborators 2 (IdentTypeRepr [Component 0 ''T'' [] None])
       (startParser [mkTok tok_l_square ''['' 1, mkTok tok_r_square '']'' 2,
                     mkTok tok_l_square ''['' 3, mkTok tok_r_square '']'' 4]) =
     Some (Some (ArrayTypeRepr
                   (ArrayTypeRepr (IdentTypeRepr [Component 0 ''T'' [] None]) None (3, 4))
                   None (1, 2)),
           startParser [])"
    using parseTypeArray_slice_of_slice
      [of "startParser [mkTok tok_l_square ''['' 1, mkTok tok_r_square '']'' 2,
                        mkTok tok_l_square ''['' 3, mkTok tok_r_square '']'' 4]"
          "mkTok tok_l_square ''['' 1" "mkTok tok_r_square '']'' 2"
          "mkTok tok_l_square ''['' 3" "mkTok tok_r_square '']'' 4" "[]"
          exampleCollaborators 0 "IdentTypeRepr [Component 0 ''T'' [] None]"]
    by (simp add: startParser_def mkTok_def tokIs_def isFollowingLSquare_def
          isAtStartOfLine_def Tok_def eofToken_def numeral_2_eq_2)
  have whole:
    "parseType exampleCollaborators 3 expected_type
       (startParser [mkTok tok_identifier ''T'' 0,
                     mkTok tok_l_square ''['' 1, mkTok tok_r_square '']'' 2,
                     mkTok tok_l_square ''['' 3, mkTok tok_r_square '']'' 4]) =
     Some (Some (ArrayTypeRepr
                   (ArrayTypeRepr (IdentTypeRepr [Component 0 ''T'' [] None]) None (3, 4))
                   None (1, 2)),
           startParser [])"
    by code_simp
  from array whole show ?thesis by (rule conjI)
qed

section \<open>Fixed-length arrays\<close>

lemma parseTypeArray_sized_never_node:
  "\<not> tokIs (Tok (consumeToken s)) tok_r_square \<Longrightarrow>
   parseTypeArray E n Base s = Some (r, s') \<Longrightarrow> r = None"
  by (cases n) (auto simp: Let_def split: prod.splits option.splits bool.splits if_splits)

text \<open>
  With an expression collaborator that only consumes tokens, \<open>parseTypeArray\<close>
  returns as soon as the fuel exceeds the weight of the remaining input.
\<close>

lemma parseTypeArray_returns:
  assumes "exprParserWellBehaved E"
  shows "tokenWeight s < n \<Longrightarrow> parseTypeArray E n Base s \<noteq> None"
proof (induction n arbitrary: s)
  case 0
  then show ?case by simp
next
  case (Suc n)
  let ?s1 = "consumeToken s"
  have w1: "tokenWeight ?s1 \<le> tokenWeight s" by (rule weight_consumeToken)
  show ?case
  proof (cases "tokIs (Tok ?s1) tok_r_square")
    case True
    then have "tokenWeight (consumeToken ?s1) < tokenWeight ?s1"
      by (rule weight_consumeToken_is) simp
    with w1 Suc.prems have "tokenWeight (consumeToken ?s1) < n" by simp
    from Suc.IH[OF this] True show ?thesis
      by (auto simp: Let_def split: option.splits)
  next
    case False
    obtain r s2 where e: "parseExpr E expected_expr_array_type ?s1 = (r, s2)"
      by (cases "parseExpr E expected_expr_array_type ?s1")
    from weight_parseExpr[OF assms e] have w2: "tokenWeight s2 \<le> tokenWeight ?s1" .
    show ?thesis
    proof (cases "tokIs (Tok s2) tok_r_square")
      case True
      then have "tokenWeight (consumeToken s2) < tokenWeight s2"
        by (rule weight_consumeToken_is) simp
      with w1 w2 Suc.prems have "tokenWeight (consumeToken s2) < n" by simp
      from Suc.IH[OF this] False e True show ?thesis
        by (auto simp: Let_def parseMatchingToken_def split: option.splits)
    next
      case F2: False
      with False e show ?thesis
        by (auto simp: Let_def parseMatchingToken_def split: option.splits)
    qed
  qed
qed

text \<open>
  C2 (as amended). When the token after the opening bracket is not the closing
  bracket, \<open>parseTypeArray\<close> never returns a node, and it does return nothing once
  the fuel exceeds the weight of the remaining input (for an expression collaborator
  that only consumes tokens). It emits the "unsupported fixed-length array" diagnostic
  (anchored at the opening bracket, highlighting the size expression) when the size
  expression parsed, the closing bracket is there, and the following bracket clause, if
  there is one, returned a node; the diagnostic then comes after that clause, as on
  \<open>Int[4][]\<close>. When the following bracket clause returned nothing, so does this one,
  in the state that clause left, without a diagnostic of its own. When the expression
  collaborator fails, it returns nothing in the very state the collaborator left,
  without that diagnostic; when the closing bracket is missing, it returns nothing
  after the two diagnostics of \<open>parseMatchingToken\<close>.
\<close>

theorem parseTypeArray_fixed_length:
  assumes "\<not> tokIs (Tok (consumeToken s)) tok_r_square"
  shows "(\<forall>r s'. parseTypeArray E n Base s = Some (r, s') \<longrightarrow> r = None) \<and>
         (exprParserWellBehaved E \<and> tokenWeight s < n \<longrightarrow>
            (\<exists>s'. parseTypeArray E n Base s = Some (None, s'))) \<and>
         (\<forall>s2. parseExpr E expected_expr_array_type (consumeToken s) = (None, s2) \<longrightarrow>
               parseTypeArray E (Suc n) Base s = Some (None, s2)) \<and>
         (\<forall>sizeEx s2. parseExpr E expected_expr_array_type (consumeToken s) = (Some sizeEx, s2) \<and>
               \<not> tokIs (Tok s2) tok_r_square \<longrightarrow>
               parseTypeArray E (Suc n) Base s =
                 Some (None, diagnose (tokLoc (Tok s)) opening_bracket
                               (diagnose (tokLoc (Tok s2)) expected_rbracket_array_type s2))) \<and>
         (\<forall>sizeEx s2. parseExpr E expected_expr_array_type (consumeToken s) = (Some sizeEx, s2) \<and>
               tokIs (Tok s2) tok_r_square \<and> \<not> isFollowingLSquare (Tok (consumeToken s2)) \<longrightarrow>
               parseTypeArray E (Suc n) Base s =
                 Some (None, diagnoseRange (tokLoc (Tok s)) unsupported_fixed_length_array
                               (exprSourceRange sizeEx) (consumeToken s2))) \<and>
         (\<forall>sizeEx s2 Base1 s4.
               parseExpr E expected_expr_array_type (consumeToken s) = (Some sizeEx, s2) \<and>
               tokIs (Tok s2) tok_r_square \<and> isFollowingLSquare (Tok (consumeToken s2)) \<and>
               parseTypeArray E n Base (consumeToken s2) = Some (Some Base1, s4) \<longrightarrow>
               parseTypeArray E (Suc n) Base s =
                 Some (None, diagnoseRange (tokLoc (Tok s)) unsupported_fixed_length_array
                               (exprSourceRange sizeEx) s4)) \<and>
         (\<forall>sizeEx s2 s4.
               parseExpr E expected_expr_array_type (consumeToken s) = (Some sizeEx, s2) \<and>
               tokIs (Tok s2) tok_r_square \<and> isFollowingLSquare (Tok (consumeToken s2)) \<and>
               parseTypeArray E n Base (consumeToken s2) = Some (None, s4) \<longrightarrow>
               parseTypeArray E (Suc n) Base s = Some (None, s4))"
proof -
  have never: "\<forall>r s'. parseTypeArray E n Base s = Some (r, s') \<longrightarrow> r = None"
    using assms parseTypeArray_sized_never_node[of s E n Base] by blast
  have ret: "exprParserWellBehaved E \<and> tokenWeight s < n \<longrightarrow>
            (\<exists>s'. parseTypeArray E n Base s = Some (None, s'))"
  proof
    assume h: "exprParserWellBehaved E \<and> tokenWeight s < n"
    then have "parseTypeArray E n Base s \<noteq> None" by (simp add: parseTypeArray_returns)
    then obtain r s' where "parseTypeArray E n Base s = Some (r, s')" by auto
    with never show "\<exists>s'. parseTypeArray E n Base s = Some (None, s')" by auto
  qed
  have rest: "(\<forall>s2. parseExpr E expected_expr_array_type (consumeToken s) = (None, s2) \<longrightarrow>
               parseTypeArray E (Suc n) Base s = Some (None, s2)) \<and>
         (\<forall>sizeEx s2. parseExpr E expected_expr_array_type (consumeToken s) = (Some sizeEx, s2) \<and>
               \<not> tokIs (Tok s2) tok_r_square \<longrightarrow>
               parseTypeArray E (Suc n) Base s =
                 Some (None, diagnose (tokLoc (Tok s)) opening_bracket
                               (diagnose (tokLoc (Tok s2)) expected_rbracket_array_type s2))) \<and>
         (\<forall>sizeEx s2. parseExpr E expected_expr_array_type (consumeToken s) = (Some sizeEx, s2) \<and>
               tokIs (Tok s2) tok_r_square \<and> \<not> isFollowingLSquare (Tok (consumeToken s2)) \<longrightarrow>
               parseTypeArray E (Suc n) Base s =
                 Some (None, diagnoseRange (tokLoc (Tok s)) unsupported_fixed_length_array
                               (exprSourceRange sizeEx) (consumeToken s2))) \<and>
         (\<forall>sizeEx s2 Base1 s4.
               parseExpr E expected_expr_array_type (consumeToken s) = (Some sizeEx, s2) \<and>
               tokIs (Tok s2) tok_r_square \<and> isFollowingLSquare (Tok (consumeToken s2)) \<and>
               parseTypeArray E n Base (consumeToken s2) = Some (Some Base1, s4) \<longrightarrow>
               parseTypeArray E (Suc n) Base s =
                 Some (None, diagnoseRange (tokLoc (Tok s)) unsupported_fixed_length_array
                               (exprSourceRange sizeEx) s4)) \<and>
         (\<forall>sizeEx s2 s4.
               parseExpr E expected_expr_array_type (consumeToken s) = (Some sizeEx, s2) \<and>
               tokIs (Tok s2) tok_r_square \<and> isFollowingLSquare (Tok (consumeToken s2)) \<and>
               parseTypeArray E n Base (consumeToken s2) = Some (None, s4) \<longrightarrow>
               parseTypeArray E (Suc n) Base s = Some (None, s4))"
    using assms by (auto simp: Let_def parseMatchingToken_def openingNote_def)
  from never ret rest show ?thesis by blast
qed

text \<open>
  The claim as stated fails on \<open>Int[)\<close>: the size expression does not parse, nothing
  is returned, and the only diagnostic is the expression parser's own.
\<close>

theorem parseTypeArray_fixed_length_counterexample:
  "parseTypeArray exampleCollaborators 2 (IdentTypeRepr [Component 0 ''Int'' [] None])
     (startParser [mkTok tok_l_square ''['' 3, mkTok tok_r_paren '')'' 4, mkTok tok_r_square '']'' 5])
   = Some (None, \<lparr>toks = [mkTok tok_r_paren '')'' 4, mkTok tok_r_square '']'' 5],
                  diags = [(4, expected_expr_array_type, None)]\<rparr>)"
  by code_simp

text \<open>
  On \<open>Int[4][]\<close> the slice clause that follows returns its node, and the diagnostic
  is emitted after it.
\<close>

theorem parseTypeArray_fixed_length_witness:
  "\<not> tokIs (Tok (consumeToken (startParser
        [mkTok tok_l_square ''['' 3, mkTok tok_integer_literal ''4'' 4, mkTok tok_r_square '']'' 5,
         mkTok tok_l_square ''['' 6, mkTok tok_r_square '']'' 7]))) tok_r_square \<and>
   parseTypeArray exampleCollaborators 2 (IdentTypeRepr [Component 0 ''Int'' [] None])
     (startParser
        [mkTok tok_l_square ''['' 3, mkTok tok_integer_literal ''4'' 4, mkTok tok_r_square '']'' 5,
         mkTok tok_l_square ''['' 6, mkTok tok_r_square '']'' 7])
   = Some (None, \<lparr>toks = [], diags = [(3, unsupported_fixed_length_array, Some (4, 5))]\<rparr>)"
proof -
  let ?Int = "IdentTypeRepr [Component 0 ''Int'' [] None]"
  let ?s = "startParser
        [mkTok tok_l_square ''['' 3, mkTok tok_integer_literal ''4'' 4, mkTok tok_r_square '']'' 5,
         mkTok tok_l_square ''['' 6, mkTok tok_r_square '']'' 7]"
  let ?s2 = "startParser
        [mkTok tok_r_square '']'' 5, mkTok tok_l_square ''['' 6, mkTok tok_r_square '']'' 7]"
  have h: "\<not> tokIs (Tok (consumeToken ?s)) tok_r_square" by code_simp
  have e: "parseExpr exampleCollaborators expected_expr_array_type (consumeToken ?s) =
       (Some (Expr 4 5), ?s2)" by code_simp
  have t: "tokIs (Tok ?s2) tok_r_square" by code_simp
  have f: "isFollowingLSquare (Tok (consumeToken ?s2))" by code_simp
  have a: "parseTypeArray exampleCollaborators (Suc 0) ?Int (consumeToken ?s2) =
       Some (Some (ArrayTypeRepr ?Int None (6, 7)), startParser [])" by code_simp
  have d: "diagnoseRange (tokLoc (Tok ?s)) unsupported_fixed_length_array
             (exprSourceRange (Expr 4 5)) (startParser [])
     = \<lparr>toks = [], diags = [(3, unsupported_fixed_length_array, Some (4, 5))]\<rparr>" by code_simp
  from parseTypeArray_fixed_length[OF h, of exampleCollaborators "Suc 0" ?Int] e t f a
  have "parseTypeArray exampleCollaborators (Suc (Suc 0)) ?Int ?s =
          Some (None, diagnoseRange (tokLoc (Tok ?s)) unsupported_fixed_length_array
                        (exprSourceRange (Expr 4 5)) (startParser []))"
    by blast
  with h d show ?thesis by (simp add: numeral_2_eq_2)
qed

section \<open>Type annotations\<close>

text \<open>
  C3 (as amended). With \<open>attrs\<close> the attributes that the attribute-list parser
  produced: when the type parses, \<open>parseTypeAnnotation\<close> returns it, wrapped in an
  \<open>AttributedTypeRepr\<close> if and only if \<open>attrs\<close> is not empty, whether or not the
  attribute-list parser reported a failure; when the type does not parse and there is
  no attribute, it returns nothing.
\<close>

theorem parseTypeAnnotation_wrapping:
  assumes "parseAttributeList E s = (failed, attrs, s1)"
  shows "(\<forall>ty s2. parseType E n message s1 = Some (Some ty, s2) \<longrightarrow>
            parseTypeAnnotation E n message s =
              Some (if attrs = [] then Some ty else Some (AttributedTypeRepr attrs (Some ty)), s2)) \<and>
         (\<forall>s2. parseType E n message s1 = Some (None, s2) \<and> attrs = [] \<longrightarrow>
            parseTypeAnnotation E n message s = Some (None, s2))"
  using assms by (simp add: parseTypeAnnotation_def parseTypeAnnotationWith_def applyAttributeToType_def)

theorem parseTypeAnnotation_wrapping_witness:
  "parseAttributeList exampleCollaborators
     (startParser [mkTok tok_l_square ''['' 0, mkTok tok_identifier ''x'' 1,
                   mkTok tok_r_square '']'' 2, mkTok tok_identifier ''Int'' 4]) =
     (False, [''x''], startParser [mkTok tok_identifier ''Int'' 4]) \<and>
   parseTypeAnnotation exampleCollaborators 2 expected_type
     (startParser [mkTok tok_l_square ''['' 0, mkTok tok_identifier ''x'' 1,
                   mkTok tok_r_square '']'' 2, mkTok tok_identifier ''Int'' 4]) =
     Some (Some (AttributedTypeRepr [''x''] (Some (IdentTypeRepr [Component 4 ''Int'' [] None]))),
           startParser [])"
proof -
  let ?s = "startParser [mkTok tok_l_square ''['' 0, mkTok tok_identifier ''x'' 1,
                   mkTok tok_r_square '']'' 2, mkTok tok_identifier ''Int'' 4]"
  have a: "parseAttributeList exampleCollaborators ?s =
             (False, [''x''], startParser [mkTok tok_identifier ''Int'' 4])"
    by code_simp
  have t: "parseType exampleCollaborators 2 expected_type (startParser [mkTok tok_identifier ''Int'' 4]) =
             Some (Some (IdentTypeRepr [Component 4 ''Int'' [] None]), startParser [])"
    by code_simp
  from parseTypeAnnotation_wrapping[OF a, of 2 expected_type] t
  have "parseTypeAnnotation exampleCollaborators 2 expected_type ?s =
          Some (if [''x''] = [] then Some (IdentTypeRepr [Component 4 ''Int'' [] None])
                else Some (AttributedTypeRepr [''x''] (Some (IdentTypeRepr [Component 4 ''Int'' [] None]))),
                startParser [])"
    by blast
  with a show ?thesis by simp
qed

text \<open>
  The claim as stated fails twice. On \<open>[Int\<close> the attribute-list parser fails and a
  node is returned all the same: its result is discarded. On \<open>[x] )\<close> the type does
  not parse and the result is not null but an \<open>AttributedTypeRepr\<close> around the null
  pointer: \<^verbatim>\<open>applyAttributeToType\<close> does not test the pointer.
\<close>

theorem parseTypeAnnotation_failure_counterexample:
  "parseAttributeList exampleCollaborators
     (startParser [mkTok tok_l_square ''['' 0, mkTok tok_identifier ''Int'' 1]) =
     (True, [], \<lparr>toks = [mkTok tok_identifier ''Int'' 1],
                 diags = [(1, other_diag ''expected attribute name'', None)]\<rparr>) \<and>
   parseTypeAnnotation exampleCollaborators 2 expected_type
     (startParser [mkTok tok_l_square ''['' 0, mkTok tok_identifier ''Int'' 1]) =
     Some (Some (IdentTypeRepr [Component 1 ''Int'' [] None]),
           \<lparr>toks = [], diags = [(1, other_diag ''expected attribute name'', None)]\<rparr>) \<and>
   parseType exampleCollaborators 2 expected_type (startParser [mkTok tok_r_paren '')'' 4]) =
     Some (None, \<lparr>toks = [mkTok tok_r_paren '')'' 4], diags = [(4, expected_type, None)]\<rparr>) \<and>
   parseTypeAnnotation exampleCollaborators 2 expected_type
     (startParser [mkTok tok_l_square ''['' 0, mkTok tok_identifier ''x'' 1,
                   mkTok tok_r_square '']'' 2, mkTok tok_r_paren '')'' 4]) =
     Some (Some (AttributedTypeRepr [''x''] None),
           \<lparr>toks = [mkTok tok_r_paren '')'' 4], diags = [(4, expected_type, None)]\<rparr>)"
  by code_simp

section \<open>Path separators\<close>

lemma parseTypeIdentifierLoop_stops:
  "parseTypeIdentifierLoop E PT n comps s = Some (Some comps', s') \<Longrightarrow>
   \<not> ((tokIs (Tok s') tok_period \<or> tokIs (Tok s') tok_period_prefix) \<and>
      tokIsNot (peekToken s') tok_kw_metatype)"
proof (induction n arbitrary: comps s)
  case 0
  then show ?case by simp
next
  case (Suc n)
  then show ?case
    by (auto simp: Let_def split: prod.splits option.splits bool.splits if_splits)
qed

text \<open>
  C4 (as amended). The metatype loop of \<open>parseType\<close> consumes nothing unless the
  current token is a separator and the next one the metatype keyword. A separator
  that is not followed by the metatype keyword is consumed by \<open>parseTypeIdentifier\<close>
  as the continuation of a dotted path: when \<open>parseTypeIdentifier\<close> succeeds and stops
  at a separator, the token after that separator is the metatype keyword.
\<close>

theorem separator_consumption:
  "(\<not> ((tokIs (Tok u) tok_period \<or> tokIs (Tok u) tok_period_prefix) \<and>
        tokIs (peekToken u) tok_kw_metatype) \<longrightarrow> parseMetatypeSuffixes ty u = (ty, u)) \<and>
   (parseTypeIdentifier E n s = Some (Some comps, s') \<and>
      (tokIs (Tok s') tok_period \<or> tokIs (Tok s') tok_period_prefix) \<longrightarrow>
    tokIs (peekToken s') tok_kw_metatype)"
proof -
  have "parseTypeIdentifier E n s = Some (Some comps, s') \<Longrightarrow>
        (tokIs (Tok s') tok_period \<or> tokIs (Tok s') tok_period_prefix) \<Longrightarrow>
        tokIs (peekToken s') tok_kw_metatype"
    using parseTypeIdentifierLoop_stops[of E "parseType E n" n "[]" s _ s']
    by (auto simp: parseTypeIdentifier_def parseTypeIdentifierWith_def tokIs_def tokIsNot_def
          split: if_splits option.splits prod.splits)
  then show ?thesis by (auto simp: parseMetatypeSuffixes.simps[of ty u])
qed

theorem separator_consumption_witness:
  "parseTypeIdentifier exampleCollaborators 2
     (startParser [mkTok tok_identifier ''Foo'' 0, mkTok tok_period ''.'' 3,
                   mkTok tok_kw_metatype ''metatype'' 4]) =
     Some (Some [Component 0 ''Foo'' [] None],
           startParser [mkTok tok_period ''.'' 3, mkTok tok_kw_metatype ''metatype'' 4]) \<and>
   tokIs (peekToken (startParser [mkTok tok_period ''.'' 3, mkTok tok_kw_metatype ''metatype'' 4]))
     tok_kw_metatype \<and>
   parseMetatypeSuffixes (ProtocolCompositionTypeRepr [] 0 (8, 9))
     (startParser [mkTok tok_period ''.'' 10, mkTok tok_identifier ''bar'' 11]) =
     (ProtocolCompositionTypeRepr [] 0 (8, 9),
      startParser [mkTok tok_period ''.'' 10, mkTok tok_identifier ''bar'' 11])"
proof -
  let ?s = "startParser [mkTok tok_identifier ''Foo'' 0, mkTok tok_period ''.'' 3,
                   mkTok tok_kw_metatype ''metatype'' 4]"
  let ?s' = "startParser [mkTok tok_period ''.'' 3, mkTok tok_kw_metatype ''metatype'' 4]"
  let ?u = "startParser [mkTok tok_period ''.'' 10, mkTok tok_identifier ''bar'' 11]"
  have p: "parseTypeIdentifier exampleCollaborators 2 ?s = Some (Some [Component 0 ''Foo'' [] None], ?s')"
    by code_simp
  have q: "tokIs (Tok ?s') tok_period" by code_simp
  have r: "\<not> ((tokIs (Tok ?u) tok_period \<or> tokIs (Tok ?u) tok_period_prefix) \<and>
        tokIs (peekToken ?u) tok_kw_metatype)" by code_simp
  from separator_consumption[where u = ?u and ty = "ProtocolCompositionTypeRepr [] 0 (8, 9)"
         and E = exampleCollaborators and n = 2 and s = ?s
         and comps = "[Component 0 ''Foo'' [] None]" and s' = ?s'] p q r
  show ?thesis by blast
qed

text \<open>
  The claim as stated fails on \<open>Foo.bar\<close>: the type parser consumes the separator and
  \<open>bar\<close>, and returns the identifier type of two components.
\<close>

theorem dotted_path_counterexample:
  "parseType exampleCollaborators 3 expected_type
     (startParser [mkTok tok_identifier ''Foo'' 0, mkTok tok_period ''.'' 3,
                   mkTok tok_identifier ''bar'' 4]) =
   Some (Some (IdentTypeRepr [Component 0 ''Foo'' [] None, Component 4 ''bar'' [] None]),
         startParser [])"
  by code_simp

section \<open>Disambiguating a generic argument list\<close>

lemma canParseAsGenericArgumentList_true:
  "canParseAsGenericArgumentList E n s = Some (True, s') \<longleftrightarrow>
      s' = s \<and> isAnyOperator (Tok s) \<and> tokText (Tok s) = ''<'' \<and>
      (\<exists>s1. canParseGenericArguments E n s = Some (True, s1) \<and>
            isGenericTypeDisambiguatingToken (Tok s1))"
proof (cases "\<not> isAnyOperator (Tok s) \<or> tokText (Tok s) \<noteq> ''<''")
  case True
  then show ?thesis by (auto simp: canParseAsGenericArgumentList_def)
next
  case False
  then show ?thesis
    by (cases "canParseGenericArguments E n s")
       (auto simp: canParseAsGenericArgumentList_def BacktrackingScope_def split: bool.splits)
qed

lemma isGenericTypeDisambiguatingToken_set:
  "isGenericTypeDisambiguatingToken t \<longleftrightarrow>
      tokKind t \<in> {tok_r_paren, tok_r_square, tok_l_brace, tok_r_brace, tok_period,
                   tok_comma, tok_semi, tok_eof} \<or>
      tokKind t = tok_period_prefix \<and> tokPrecedingChar t = CHR ''>'' \<or>
      tokKind t \<in> {tok_l_paren, tok_l_square} \<and> \<not> isAtStartOfLine t"
  by (cases "tokKind t") (simp_all add: isGenericTypeDisambiguatingToken_def)

text \<open>
  C5 (as amended). \<open>canParseAsGenericArgumentList\<close> answers true exactly when the
  current token is an operator spelled \<open><\<close>, \<open>canParseGenericArguments\<close> succeeds, and
  the token it stops at is a disambiguating one; the state is the one on entry. The
  disambiguating tokens are: a closing parenthesis, bracket or brace, an opening brace,
  a period, a comma, a semicolon, the end of input; a prefix period whose preceding
  character is \<open>>\<close>; an opening parenthesis or bracket that does not start a line.
\<close>

theorem canParseAsGenericArgumentList_true_iff:
  "(canParseAsGenericArgumentList E n s = Some (True, s') \<longleftrightarrow>
      s' = s \<and> isAnyOperator (Tok s) \<and> tokText (Tok s) = ''<'' \<and>
      (\<exists>s1. canParseGenericArguments E n s = Some (True, s1) \<and>
            isGenericTypeDisambiguatingToken (Tok s1))) \<and>
   (isGenericTypeDisambiguatingToken t \<longleftrightarrow>
      tokKind t \<in> {tok_r_paren, tok_r_square, tok_l_brace, tok_r_brace, tok_period,
                   tok_comma, tok_semi, tok_eof} \<or>
      tokKind t = tok_period_prefix \<and> tokPrecedingChar t = CHR ''>'' \<or>
      tokKind t \<in> {tok_l_paren, tok_l_square} \<and> \<not> isAtStartOfLine t)"
  using canParseAsGenericArgumentList_true isGenericTypeDisambiguatingToken_set
  by (rule conjI)

theorem canParseAsGenericArgumentList_true_iff_witness:
  "canParseAsGenericArgumentList exampleCollaborators 3
     (startParser [mkTok tok_oper_binary ''<'' 0, mkTok tok_identifier ''Int'' 1,
                   mkTok tok_oper_binary ''>'' 4, mkTok tok_r_paren '')'' 5]) =
   Some (True, startParser [mkTok tok_oper_binary ''<'' 0, mkTok tok_identifier ''Int'' 1,
                   mkTok tok_oper_binary ''>'' 4, mkTok tok_r_paren '')'' 5]) \<and>
   isGenericTypeDisambiguatingToken (mkTok tok_r_paren '')'' 5)"
proof -
  let ?s = "startParser [mkTok tok_oper_binary ''<'' 0, mkTok tok_identifier ''Int'' 1,
                   mkTok tok_oper_binary ''>'' 4, mkTok tok_r_paren '')'' 5]"
  have a: "isAnyOperator (Tok ?s) \<and> tokText (Tok ?s) = ''<''" by code_simp
  have b: "canParseGenericArguments exampleCollaborators 3 ?s = Some (True, startParser [mkTok tok_r_paren '')'' 5])"
    by code_simp
  have k: "tokKind (mkTok tok_r_paren '')'' 5) = tok_r_paren" by code_simp
  have t: "Tok (startParser [mkTok tok_r_paren '')'' 5]) = mkTok tok_r_paren '')'' 5" by code_simp
  from canParseAsGenericArgumentList_true_iff[where E = exampleCollaborators and n = 3 and s = ?s
         and s' = ?s and t = "mkTok tok_r_paren '')'' 5"] k
  have d: "isGenericTypeDisambiguatingToken (mkTok tok_r_paren '')'' 5)" by simp
  from canParseAsGenericArgumentList_true_iff[where E = exampleCollaborators and n = 3 and s = ?s
         and s' = ?s and t = "mkTok tok_r_paren '')'' 5"] a b d t
  have "canParseAsGenericArgumentList exampleCollaborators 3 ?s = Some (True, ?s)" by simp
  with d show ?thesis by simp
qed

text \<open>
  The claim as stated fails on \<open><Int> {\<close>, where the token after \<open>>\<close> is an opening
  brace, and on a plain period token whose preceding character is not \<open>>\<close>: the answer
  is true in both.
\<close>

theorem canParseAsGenericArgumentList_brace_counterexample:
  "canParseAsGenericArgumentList exampleCollaborators 3
     (startParser [mkTok tok_oper_binary ''<'' 0, mkTok tok_identifier ''Int'' 1,
                   mkTok tok_oper_binary ''>'' 4, mkTok tok_l_brace ''{'' 6]) =
   Some (True, startParser [mkTok tok_oper_binary ''<'' 0, mkTok tok_identifier ''Int'' 1,
                   mkTok tok_oper_binary ''>'' 4, mkTok tok_l_brace ''{'' 6]) \<and>
   canParseAsGenericArgumentList exampleCollaborators 3
     (startParser [mkTok tok_oper_binary ''<'' 0, mkTok tok_identifier ''Int'' 1,
                   mkTok tok_oper_binary ''>'' 4, mkTok tok_period ''.'' 6]) =
   Some (True, startParser [mkTok tok_oper_binary ''<'' 0, mkTok tok_identifier ''Int'' 1,
                   mkTok tok_oper_binary ''>'' 4, mkTok tok_period ''.'' 6]) \<and>
   tokPrecedingChar (mkTok tok_period ''.'' 6) = CHR '' ''"
  by code_simp

section \<open>Recovery in protocol compositions and generic arguments\<close>

text \<open>
  C7. When the member list of \<open>parseTypeComposition\<close> ends (every member parsed, no
  further comma) at a token that does not start with \<open>>\<close>, the parser diagnoses the
  missing \<open>>\<close> at that token and adds the note at the opening \<open><\<close>, skips to the
  next operator, consumes it when it starts with \<open>>\<close>, and returns the composition
  node of the members parsed.
\<close>

theorem parseTypeComposition_missing_rangle:
  assumes "startsWithLess (Tok (consumeToken s))"
    and "\<not> startsWithGreater (Tok (consumeStartingLess (consumeToken s)))"
    and "parseTypeCompositionLoop E (parseType E n) n [] (consumeStartingLess (consumeToken s)) =
           Some (False, Protocols, s3)"
    and "\<not> startsWithGreater (Tok s3)"
    and "s4 = diagnose (tokLoc (Tok (consumeToken s))) opening_angle
                (diagnose (tokLoc (Tok s3)) expected_rangle_protocol s3)"
  shows "parseTypeComposition E n s =
           Some (Some (ProtocolCompositionTypeRepr Protocols (tokLoc (Tok s))
                   (tokLoc (Tok (consumeToken s)),
                    if startsWithGreater (Tok (skipUntilAnyOperator s4))
                    then tokLoc (Tok (skipUntilAnyOperator s4)) else tokLoc (Tok s3))),
                 skipToClosingAngle s4)"
  using assms
  by (simp add: parseTypeComposition_def parseTypeCompositionWith_def Let_def skipToClosingAngle_def)

theorem parseTypeComposition_missing_rangle_witness:
  "parseTypeCompositionLoop exampleCollaborators (parseType exampleCollaborators 3) 3 []
     (startParser [mkTok tok_identifier ''A'' 9, mkTok tok_identifier ''B'' 11,
                   mkTok tok_oper_binary ''>'' 12]) =
     Some (False, [[Component 9 ''A'' [] None]],
           startParser [mkTok tok_identifier ''B'' 11, mkTok tok_oper_binary ''>'' 12]) \<and>
   parseTypeComposition exampleCollaborators 3
     (startParser [mkTok tok_kw_protocol ''protocol'' 0, mkTok tok_oper_binary ''<'' 8,
                   mkTok tok_identifier ''A'' 9, mkTok tok_identifier ''B'' 11,
                   mkTok tok_oper_binary ''>'' 12]) =
     Some (Some (ProtocolCompositionTypeRepr [[Component 9 ''A'' [] None]] 0 (8, 12)),
           \<lparr>toks = [],
            diags = [(11, expected_rangle_protocol, None), (8, opening_angle, None)]\<rparr>)"
proof -
  let ?s = "startParser [mkTok tok_kw_protocol ''protocol'' 0, mkTok tok_oper_binary ''<'' 8,
                   mkTok tok_identifier ''A'' 9, mkTok tok_identifier ''B'' 11,
                   mkTok tok_oper_binary ''>'' 12]"
  let ?s2 = "startParser [mkTok tok_identifier ''A'' 9, mkTok tok_identifier ''B'' 11,
                   mkTok tok_oper_binary ''>'' 12]"
  let ?s3 = "startParser [mkTok tok_identifier ''B'' 11, mkTok tok_oper_binary ''>'' 12]"
  let ?s4 = "\<lparr>toks = [mkTok tok_identifier ''B'' 11, mkTok tok_oper_binary ''>'' 12],
             diags = [(11, expected_rangle_protocol, None), (8, opening_angle, None)]\<rparr>"
  have h1: "startsWithLess (Tok (consumeToken ?s))" by code_simp
  have e: "consumeStartingLess (consumeToken ?s) = ?s2" by code_simp
  have h2: "\<not> startsWithGreater (Tok (consumeStartingLess (consumeToken ?s)))" by code_simp
  have l: "parseTypeCompositionLoop exampleCollaborators (parseType exampleCollaborators 3) 3 [] ?s2 =
             Some (False, [[Component 9 ''A'' [] None]], ?s3)" by code_simp
  have h3: "parseTypeCompositionLoop exampleCollaborators (parseType exampleCollaborators 3) 3 []
              (consumeStartingLess (consumeToken ?s)) =
             Some (False, [[Component 9 ''A'' [] None]], ?s3)" using l e by simp
  have h4: "\<not> startsWithGreater (Tok ?s3)" by code_simp
  have h5: "?s4 = diagnose (tokLoc (Tok (consumeToken ?s))) opening_angle
                (diagnose (tokLoc (Tok ?s3)) expected_rangle_protocol ?s3)" by code_simp
  have r1: "skipToClosingAngle ?s4 =
     \<lparr>toks = [], diags = [(11, expected_rangle_protocol, None), (8, opening_angle, None)]\<rparr>"
    by code_simp
  have r2: "(if startsWithGreater (Tok (skipUntilAnyOperator ?s4))
             then tokLoc (Tok (skipUntilAnyOperator ?s4)) else tokLoc (Tok ?s3)) = 12"
    by code_simp
  have r3: "tokLoc (Tok ?s) = 0 \<and> tokLoc (Tok (consumeToken ?s)) = 8" by code_simp
  from parseTypeComposition_missing_rangle[OF h1 h2 h3 h4 h5] r1 r2 r3 l
  show ?thesis by simp
qed

text \<open>
  C10. When \<open>parseGenericArguments\<close> fails, because an argument type did not parse
  or because the list does not end in \<open>>\<close> (then after the two diagnostics), the
  state it returns is the state at the point of failure after skipping to the next
  operator and consuming it when it starts with \<open>>\<close>: the cursor is not put back.
\<close>

theorem parseGenericArguments_failure_keeps_cursor_advanced:
  assumes "parseGenericArgumentsLoop (parseType E n) n [] (consumeStartingLess s) =
             Some (typeFailed, Args, s2)"
    and "typeFailed \<or> \<not> startsWithGreater (Tok s2)"
  shows "parseGenericArguments E n s =
           Some (True, Args,
                 skipToClosingAngle
                   (if typeFailed then s2
                    else diagnose (tokLoc (Tok s)) opening_angle
                           (diagnose (tokLoc (Tok s2)) expected_rangle_generic_arg_list s2)))"
  using assms by (auto simp: parseGenericArguments_def parseGenericArgumentsWith_def Let_def)

theorem parseGenericArguments_failure_keeps_cursor_advanced_witness:
  "parseGenericArguments exampleCollaborators 3
     (startParser [mkTok tok_oper_binary ''<'' 0, mkTok tok_identifier ''A'' 1,
                   mkTok tok_identifier ''B'' 3, mkTok tok_oper_binary ''>'' 4,
                   mkTok tok_identifier ''x'' 6]) =
     Some (True, [IdentTypeRepr [Component 1 ''A'' [] None]],
           \<lparr>toks = [mkTok tok_identifier ''x'' 6],
            diags = [(3, expected_rangle_generic_arg_list, None), (0, opening_angle, None)]\<rparr>)"
proof -
  let ?s = "startParser [mkTok tok_oper_binary ''<'' 0, mkTok tok_identifier ''A'' 1,
                   mkTok tok_identifier ''B'' 3, mkTok tok_oper_binary ''>'' 4,
                   mkTok tok_identifier ''x'' 6]"
  let ?s2 = "startParser [mkTok tok_identifier ''B'' 3, mkTok tok_oper_binary ''>'' 4,
                   mkTok tok_identifier ''x'' 6]"
  have h1: "parseGenericArgumentsLoop (parseType exampleCollaborators 3) 3 [] (consumeStartingLess ?s) =
              Some (False, [IdentTypeRepr [Component 1 ''A'' [] None]], ?s2)" by code_simp
  have h2: "False \<or> \<not> startsWithGreater (Tok ?s2)" by code_simp
  have r: "skipToClosingAngle
             (if False then ?s2
              else diagnose (tokLoc (Tok ?s)) opening_angle
                     (diagnose (tokLoc (Tok ?s2)) expected_rangle_generic_arg_list ?s2)) =
           \<lparr>toks = [mkTok tok_identifier ''x'' 6],
            diags = [(3, expected_rangle_generic_arg_list, None), (0, opening_angle, None)]\<rparr>"
    by code_simp
  from parseGenericArguments_failure_keeps_cursor_advanced[OF h1 h2] r
  show ?thesis by simp
qed

section \<open>Variadic tuples\<close>





text \<open>
  C8. On \<open>(...)\<close> the parser does not return nothing: the element callback fails on
  the ellipsis ("expected type"), the tuple is never marked variadic, and an empty
  tuple node without variadic marker is returned. On \<open>(Int...)\<close> the tuple node
  carries the element and the location of the ellipsis.
\<close>

theorem parseTypeTupleBody_ellipsis_only:
  "parseTypeTupleBody exampleCollaborators 3
     (startParser [mkTok tok_l_paren ''('' 0, mkTok tok_ellipsis ''...'' 1,
                   mkTok tok_r_paren '')'' 4]) =
   Some (Some (TupleTypeRepr [] (0, 1) None),
         \<lparr>toks = [mkTok tok_ellipsis ''...'' 1, mkTok tok_r_paren '')'' 4],
          diags = [(1, expected_type, None), (1, expected_rparen_tuple_type_list, None),
                   (0, opening_paren, None)]\<rparr>) \<and>
   parseTypeTupleBody exampleCollaborators 3
     (startParser [mkTok tok_l_paren ''('' 0, mkTok tok_identifier ''Int'' 1,
                   mkTok tok_ellipsis ''...'' 4, mkTok tok_r_paren '')'' 7]) =
   Some (Some (TupleTypeRepr [IdentTypeRepr [Component 1 ''Int'' [] None]] (0, 0) (Some 4)),
         startParser [])"
  by code_simp


section \<open>The prober against the committed parser\<close>


lemma kinds_consumeStartingCharacter:
  "kinds (consumeStartingCharacter s) = kinds s \<or> kinds (consumeStartingCharacter s) = tl (kinds s)"
  by (auto simp: kinds_def consumeStartingCharacter_def consumeToken_def map_tl split: list.splits)

lemma kinds_diagnose [simp]: "kinds (diagnose l d s) = kinds s"
  by (simp add: kinds_def diagnose_def)

lemma kinds_diagnoseRange [simp]: "kinds (diagnoseRange l d r s) = kinds s"
  by (simp add: kinds_def diagnoseRange_def)

lemma reaches_refl [simp]: "reaches s s"
  by (simp add: reaches_def)




lemma reaches_consumeStartingCharacter [simp]: "reaches s (consumeStartingCharacter s)"
  using kinds_consumeStartingCharacter[of s] by (auto simp: reaches_def suffix_tl)



lemma reaches_diagnose [simp]:
  "reaches (diagnose l d s) u = reaches s u" "reaches u (diagnose l d s) = reaches u s"
  by (simp_all add: reaches_def)

lemma reaches_diagnoseRange [simp]:
  "reaches (diagnoseRange l d r s) u = reaches s u" "reaches u (diagnoseRange l d r s) = reaches u s"
  by (simp_all add: reaches_def)












lemma plainlyConsumed_refl [simp]: "plainlyConsumed s s"
  by (simp add: plainlyConsumed_def)











lemma diags_skipMetatypeSuffixes [simp]: "diags (skipMetatypeSuffixes s) = diags s"
proof (induction s rule: skipMetatypeSuffixes.induct)
  case (1 s)
  show ?case
  proof (cases "(tokIs (Tok s) tok_period \<or> tokIs (Tok s) tok_period_prefix) \<and>
         tokIs (peekToken s) tok_kw_metatype")
    case True
    with 1 show ?thesis by (subst skipMetatypeSuffixes.simps) simp
  next
    case False
    then show ?thesis by (subst skipMetatypeSuffixes.simps) auto
  qed
qed

lemma diags_skipOptionalSuffixes [simp]: "diags (skipOptionalSuffixes s) = diags s"
proof (induction s rule: skipOptionalSuffixes.induct)
  case (1 s)
  show ?case
  proof (cases "\<not> isAtStartOfLine (Tok s) \<and> tokIs (Tok s) tok_question")
    case True
    then have c: "consumeIf tok_question s = (True, consumeToken s)" by (simp add: consumeIf_def)
    from True 1(1)[OF _ c[symmetric]] show ?thesis
      by (subst skipOptionalSuffixes.simps) (simp add: c)
  next
    case False
    then show ?thesis
      by (subst skipOptionalSuffixes.simps) (auto simp: consumeIf_def)
  qed
qed











































































































section \<open>Termination of the prober, and pure lookahead\<close>


lemma weight_skipMetatypeSuffixes: "tokenWeight (skipMetatypeSuffixes s) \<le> tokenWeight s"
proof (induction s rule: skipMetatypeSuffixes.induct)
  case (1 s)
  show ?case
  proof (cases "(tokIs (Tok s) tok_period \<or> tokIs (Tok s) tok_period_prefix) \<and>
         tokIs (peekToken s) tok_kw_metatype")
    case True
    with 1 weight_consumeToken[of s] weight_consumeToken[of "consumeToken s"] show ?thesis
      by (subst skipMetatypeSuffixes.simps) simp
  next
    case False
    then show ?thesis by (subst skipMetatypeSuffixes.simps) auto
  qed
qed

lemma weight_skipOptionalSuffixes: "tokenWeight (skipOptionalSuffixes s) \<le> tokenWeight s"
proof (induction s rule: skipOptionalSuffixes.induct)
  case (1 s)
  show ?case
  proof (cases "\<not> isAtStartOfLine (Tok s) \<and> tokIs (Tok s) tok_question")
    case True
    then have c: "consumeIf tok_question s = (True, consumeToken s)" by (simp add: consumeIf_def)
    from True 1(1)[OF _ c[symmetric]] weight_consumeToken[of s] show ?thesis
      by (subst skipOptionalSuffixes.simps) (simp add: c)
  next
    case False
    then show ?thesis
      by (subst skipOptionalSuffixes.simps) (auto simp: consumeIf_def)
  qed
qed

lemma shrinksD: "shrinks CT \<Longrightarrow> CT s = Some (b, s') \<Longrightarrow> tokenWeight s' \<le> tokenWeight s"
  unfolding shrinks_def by blast

lemma canParseTypeArray_shrinks:
  "canParseTypeArray n s = Some (b, s') \<Longrightarrow> tokenWeight s' \<le> tokenWeight s"
proof (induction n arbitrary: s)
  case 0
  then show ?case by simp
next
  case (Suc n)
  from Suc.prems Suc.IH[of "consumeToken (consumeToken s)"]
    weight_consumeToken[of s] weight_consumeToken[of "consumeToken s"]
  show ?case by (auto simp: Let_def split: if_splits)
qed

lemma canParseGenericArgumentsLoop_shrinks:
  assumes "shrinks CT"
  shows "canParseGenericArgumentsLoop CT n s = Some (b, s') \<Longrightarrow> tokenWeight s' \<le> tokenWeight s"
proof (induction n arbitrary: s)
  case 0
  then show ?case by simp
next
  case (Suc n)
  from Suc.prems obtain b1 s1 where c: "CT s = Some (b1, s1)"
    by (auto split: option.splits)
  note w = shrinksD[OF assms c]
  show ?case
  proof (cases "b1 \<and> tokIs (Tok s1) tok_comma")
    case True
    with Suc.prems c have "canParseGenericArgumentsLoop CT n (consumeToken s1) = Some (b, s')"
      by (simp add: consumeIf_def)
    from Suc.IH[OF this] w weight_consumeToken[of s1] show ?thesis by simp
  next
    case False
    with Suc.prems c have "s' = s1" by (auto simp: consumeIf_def split: bool.splits)
    with w show ?thesis by simp
  qed
qed

lemma canParseGenericArgumentsWith_shrinks:
  assumes "shrinks CT" and "canParseGenericArgumentsWith CT n s = Some (b, s')"
  shows "tokenWeight s' \<le> tokenWeight s"
proof (cases "startsWithLess (Tok s)")
  case False
  with assms show ?thesis by (simp add: canParseGenericArgumentsWith_def)
next
  case True
  with assms(2) obtain b2 s2 where
    l: "canParseGenericArgumentsLoop CT n (consumeStartingLess s) = Some (b2, s2)"
    and e: "s' = s2 \<or> s' = consumeStartingGreater s2"
    by (auto simp: canParseGenericArgumentsWith_def split: option.splits bool.splits if_splits)
  from canParseGenericArgumentsLoop_shrinks[OF assms(1) l] e weight_consumeStartingLess[OF True]
    weight_consumeStartingGreater_le[of s2]
  show ?thesis by auto
qed

lemma canParseTypeIdentifierLoop_shrinks:
  assumes "shrinks CT"
  shows "canParseTypeIdentifierLoop E CT n s = Some (b, s') \<Longrightarrow> tokenWeight s' \<le> tokenWeight s"
proof (induction n arbitrary: s)
  case 0
  then show ?case by simp
next
  case (Suc n)
  let ?s1 = "consumeToken s"
  show ?case
  proof (cases "isIdentifierKeyword E (tokKind (Tok s)) \<or> tokIs (Tok s) tok_identifier")
    case False
    with Suc.prems show ?thesis by auto
  next
    case True
    with Suc.prems obtain b2 s2 where
      g: "(if startsWithLess (Tok ?s1) then canParseGenericArgumentsWith CT n ?s1
           else Some (True, ?s1)) = Some (b2, s2)"
      by (auto simp: Let_def split: option.splits)
    have w2: "tokenWeight s2 \<le> tokenWeight s"
      using g canParseGenericArgumentsWith_shrinks[OF assms, of n ?s1 b2 s2] weight_consumeToken[of s]
      by (auto split: if_splits)
    show ?thesis
    proof (cases "b2 \<and> (tokIs (Tok s2) tok_period \<or> tokIs (Tok s2) tok_period_prefix) \<and>
                tokIsNot (peekToken s2) tok_kw_metatype")
      case cont: True
      with Suc.prems True g
      have "canParseTypeIdentifierLoop E CT n (consumeToken s2) = Some (b, s')"
        by (simp add: Let_def)
      from Suc.IH[OF this] w2 weight_consumeToken[of s2] show ?thesis by simp
    next
      case False
      with Suc.prems True g have "s' = s2" by (auto simp: Let_def split: bool.splits)
      with w2 show ?thesis by simp
    qed
  qed
qed

lemma canParseTypeIdentifierWith_shrinks:
  assumes "shrinks CT" and "canParseTypeIdentifierWith E CT n s = Some (b, s')"
  shows "tokenWeight s' \<le> tokenWeight s"
  using assms canParseTypeIdentifierLoop_shrinks[OF assms(1), of E n s b s']
  by (auto simp: canParseTypeIdentifierWith_def split: if_splits)

lemma canParseTypeCompositionLoop_shrinks:
  assumes "shrinks CT"
  shows "canParseTypeCompositionLoop E CT n s = Some (b, s') \<Longrightarrow> tokenWeight s' \<le> tokenWeight s"
proof (induction n arbitrary: s)
  case 0
  then show ?case by simp
next
  case (Suc n)
  from Suc.prems obtain b1 s1 where c: "canParseTypeIdentifierWith E CT n s = Some (b1, s1)"
    by (auto split: option.splits)
  note w = canParseTypeIdentifierWith_shrinks[OF assms c]
  show ?case
  proof (cases "b1 \<and> tokIs (Tok s1) tok_comma")
    case True
    with Suc.prems c have "canParseTypeCompositionLoop E CT n (consumeToken s1) = Some (b, s')"
      by (simp add: consumeIf_def)
    from Suc.IH[OF this] w weight_consumeToken[of s1] show ?thesis by simp
  next
    case False
    with Suc.prems c have "s' = s1" by (auto simp: consumeIf_def split: bool.splits)
    with w show ?thesis by simp
  qed
qed

lemma canParseTypeCompositionWith_shrinks:
  assumes "shrinks CT" and "canParseTypeCompositionWith E CT n s = Some (b, s')"
  shows "tokenWeight s' \<le> tokenWeight s"
proof -
  let ?s1 = "consumeToken s"
  let ?s2 = "consumeStartingLess ?s1"
  have w2: "tokenWeight ?s2 \<le> tokenWeight s"
    using weight_consumeToken[of s] weight_consumeStartingCharacter[of ?s1]
    by (simp add: consumeStartingLess_def)
  show ?thesis
  proof (cases "startsWithLess (Tok ?s1) \<and> \<not> startsWithGreater (Tok ?s2)")
    case False
    with assms(2) w2 weight_consumeToken[of s] weight_consumeStartingGreater_le[of ?s2]
    show ?thesis
      by (auto simp: canParseTypeCompositionWith_def Let_def split: if_splits)
  next
    case True
    with assms(2) obtain b3 s3 where
      l: "canParseTypeCompositionLoop E CT n ?s2 = Some (b3, s3)"
      and e: "s' = s3 \<or> s' = consumeStartingGreater s3"
      by (auto simp: canParseTypeCompositionWith_def Let_def
               split: option.splits bool.splits if_splits)
    from canParseTypeCompositionLoop_shrinks[OF assms(1) l] e w2
      weight_consumeStartingGreater_le[of s3]
    show ?thesis by auto
  qed
qed

lemma skipSingleAdvancesD:
  "skipSingleAdvances E \<Longrightarrow> tokIsNot (Tok s) tok_eof \<Longrightarrow>
   tokenWeight (skipSingle E s) < tokenWeight s"
  unfolding skipSingleAdvances_def by blast

lemma skipAttributeTokens_shrinks:
  assumes "skipSingleAdvances E"
  shows "skipAttributeTokens E n s = Some s' \<Longrightarrow> tokenWeight s' \<le> tokenWeight s"
proof (induction n arbitrary: s)
  case 0
  then show ?case by simp
next
  case (Suc n)
  show ?case
  proof (cases "tokIsNot (Tok s) tok_eof \<and> tokIsNot (Tok s) tok_r_brace \<and>
         tokIsNot (Tok s) tok_r_square \<and> tokIsNot (Tok s) tok_r_paren \<and>
         \<not> isStartOfDecl E (Tok s) (peekToken s)")
    case True
    with Suc.prems have "skipAttributeTokens E n (skipSingle E s) = Some s'" by simp
    from Suc.IH[OF this] skipSingleAdvancesD[OF assms, of s] True show ?thesis by simp
  next
    case False
    with Suc.prems show ?thesis by auto
  qed
qed

lemma skipDefaultValueTokens_shrinks:
  assumes "skipSingleAdvances E"
  shows "skipDefaultValueTokens E n s = Some s' \<Longrightarrow> tokenWeight s' \<le> tokenWeight s"
proof (induction n arbitrary: s)
  case 0
  then show ?case by simp
next
  case (Suc n)
  show ?case
  proof (cases "tokIsNot (Tok s) tok_eof \<and> tokIsNot (Tok s) tok_r_paren \<and>
         tokIsNot (Tok s) tok_r_brace \<and> tokIsNot (Tok s) tok_ellipsis \<and>
         tokIsNot (Tok s) tok_comma \<and> \<not> isStartOfDecl E (Tok s) (peekToken s)")
    case True
    with Suc.prems have "skipDefaultValueTokens E n (skipSingle E s) = Some s'" by simp
    from Suc.IH[OF this] skipSingleAdvancesD[OF assms, of s] True show ?thesis by simp
  next
    case False
    with Suc.prems show ?thesis by auto
  qed
qed

lemma canSkipAttributes_shrinks:
  assumes "skipSingleAdvances E" and "canSkipAttributes E n s = Some (b, s')"
  shows "tokenWeight s' \<le> tokenWeight s"
proof (cases "tokIs (Tok s) tok_l_square")
  case True
  with assms(2) obtain s2 where k: "skipAttributeTokens E n (consumeToken s) = Some s2"
    and e: "consumeIf tok_r_square s2 = (b, s')"
    by (auto simp: canSkipAttributes_def consumeIf_def split: option.splits if_splits)
  from skipAttributeTokens_shrinks[OF assms(1) k] weight_consumeIf[OF e] weight_consumeToken[of s]
  show ?thesis by simp
next
  case False
  with assms(2) show ?thesis by (simp add: canSkipAttributes_def consumeIf_def)
qed

lemma canSkipDefaultValue_shrinks:
  assumes "skipSingleAdvances E" and "canSkipDefaultValue E n s = Some s'"
  shows "tokenWeight s' \<le> tokenWeight s"
proof (cases "tokIs (Tok s) tok_equal")
  case True
  with assms(2) have "skipDefaultValueTokens E n (consumeToken s) = Some s'"
    by (simp add: canSkipDefaultValue_def consumeIf_def)
  from skipDefaultValueTokens_shrinks[OF assms(1) this] weight_consumeToken[of s]
  show ?thesis by simp
next
  case False
  with assms(2) show ?thesis by (simp add: canSkipDefaultValue_def consumeIf_def)
qed

lemma canParseTypeTupleBodyLoop_shrinks:
  assumes "skipSingleAdvances E" and "shrinks CT"
  shows "canParseTypeTupleBodyLoop E CT n s = Some (b, s') \<Longrightarrow> tokenWeight s' \<le> tokenWeight s"
proof (induction n arbitrary: s)
  case 0
  then show ?case by simp
next
  case (Suc n)
  show ?case
  proof (cases "tokIs (Tok s) tok_identifier \<and> tokIs (peekToken s) tok_colon")
    case labelled: True
    let ?s0 = "consumeToken (consumeToken s)"
    have w0: "tokenWeight ?s0 \<le> tokenWeight s"
      using weight_consumeToken[of s] weight_consumeToken[of "consumeToken s"] by simp
    from Suc.prems labelled obtain b2 s2 where a: "canSkipAttributes E n ?s0 = Some (b2, s2)"
      by (auto split: option.splits)
    note w2 = canSkipAttributes_shrinks[OF assms(1) a]
    show ?thesis
    proof (cases b2)
      case False
      with Suc.prems labelled a w0 w2 show ?thesis by auto
    next
      case True
      with Suc.prems labelled a obtain b3 s3 where c: "CT s2 = Some (b3, s3)"
        by (auto split: option.splits)
      note w3 = shrinksD[OF assms(2) c]
      show ?thesis
      proof (cases b3)
        case False
        with Suc.prems labelled a True c w0 w2 w3 show ?thesis by auto
      next
        case ok: True
        with Suc.prems labelled a True c obtain s4 where
          dv: "canSkipDefaultValue E n s3 = Some s4"
          by (auto split: option.splits)
        note w4 = canSkipDefaultValue_shrinks[OF assms(1) dv]
        show ?thesis
        proof (cases "tokIs (Tok s4) tok_comma")
          case comma: True
          with Suc.prems labelled a True c ok dv have
            "canParseTypeTupleBodyLoop E CT n (consumeToken s4) = Some (b, s')"
            by (simp add: consumeIf_def)
          from Suc.IH[OF this] w0 w2 w3 w4 weight_consumeToken[of s4] show ?thesis by simp
        next
          case False
          with Suc.prems labelled a True c ok dv have "s' = s4" by (simp add: consumeIf_def)
          with w0 w2 w3 w4 show ?thesis by simp
        qed
      qed
    qed
  next
    case unlabelled: False
    from Suc.prems unlabelled obtain b2 s2 where a: "canSkipAttributes E n s = Some (b2, s2)"
      by (auto split: option.splits)
    note w2 = canSkipAttributes_shrinks[OF assms(1) a]
    show ?thesis
    proof (cases b2)
      case False
      with Suc.prems unlabelled a w2 show ?thesis by auto
    next
      case True
      with Suc.prems unlabelled a obtain b3 s3 where c: "CT s2 = Some (b3, s3)"
        by (auto split: option.splits)
      note w3 = shrinksD[OF assms(2) c]
      show ?thesis
      proof (cases "b3 \<and> tokIs (Tok s3) tok_comma")
        case comma: True
        with Suc.prems unlabelled a True c have
          "canParseTypeTupleBodyLoop E CT n (consumeToken s3) = Some (b, s')"
          by (simp add: consumeIf_def)
        from Suc.IH[OF this] w2 w3 weight_consumeToken[of s3] show ?thesis by simp
      next
        case False
        with Suc.prems unlabelled a True c have "s' = s3"
          by (auto simp: consumeIf_def split: bool.splits)
        with w2 w3 show ?thesis by simp
      qed
    qed
  qed
qed

lemma canParseTypeTupleBodyWith_shrinks:
  assumes "skipSingleAdvances E" and "shrinks CT"
    and "canParseTypeTupleBodyWith E CT n s = Some (b, s')"
  shows "tokenWeight s' \<le> tokenWeight s"
proof -
  from assms(3) obtain b1 s1 where
    l: "(if tokIsNot (Tok s) tok_r_paren \<and> tokIsNot (Tok s) tok_r_brace \<and>
            tokIsNot (Tok s) tok_ellipsis \<and> \<not> isStartOfDecl E (Tok s) (peekToken s)
         then canParseTypeTupleBodyLoop E CT n s else Some (True, s)) = Some (b1, s1)"
    by (auto simp: canParseTypeTupleBodyWith_def split: option.splits)
  have w1: "tokenWeight s1 \<le> tokenWeight s"
    using l canParseTypeTupleBodyLoop_shrinks[OF assms(1,2), of n s b1 s1]
    by (auto split: if_splits)
  let ?s2 = "if tokIs (Tok s1) tok_ellipsis then consumeToken s1 else s1"
  have w2: "tokenWeight ?s2 \<le> tokenWeight s1" using weight_consumeToken[of s1] by simp
  from assms(3) l have "s' = s1 \<or> s' = ?s2 \<or> s' = consumeToken ?s2"
    by (auto simp: canParseTypeTupleBodyWith_def Let_def split: bool.splits if_splits)
  with w1 w2 weight_consumeToken[of ?s2] show ?thesis by auto
qed

lemma canParseTypeSimple_shrinks:
  assumes "skipSingleAdvances E" and "shrinks CT"
    and "canParseTypeSimple E CT n s = Some (b, s')"
  shows "tokenWeight s' \<le> tokenWeight s"
  using assms(3) weight_consumeToken[of s]
    canParseTypeIdentifierWith_shrinks[OF assms(2), of E n s b s']
    canParseTypeCompositionWith_shrinks[OF assms(2), of E n s b s']
    canParseTypeTupleBodyWith_shrinks[OF assms(1,2), of n "consumeToken s" b s']
  by (auto simp: canParseTypeSimple_def split: if_splits)

lemma canParseTypeBody_shrinks:
  assumes "skipSingleAdvances E" and "shrinks CT"
  shows "shrinks (canParseTypeBody E CT n)"
  unfolding shrinks_def
proof (intro allI impI)
  fix s b s'
  assume c: "canParseTypeBody E CT n s = Some (b, s')"
  from c obtain b1 s1 where cs: "canParseTypeSimple E CT n s = Some (b1, s1)"
    by (auto simp: canParseTypeBody_def split: option.splits)
  note w1 = canParseTypeSimple_shrinks[OF assms cs]
  let ?s2 = "skipMetatypeSuffixes s1"
  let ?s4 = "skipOptionalSuffixes ?s2"
  note w2 = weight_skipMetatypeSuffixes[of s1]
  note w4 = weight_skipOptionalSuffixes[of ?s2]
  show "tokenWeight s' \<le> tokenWeight s"
  proof (cases b1)
    case False
    with c cs w1 show ?thesis by (simp add: canParseTypeBody_def)
  next
    case True
    show ?thesis
    proof (cases "tokIs (Tok ?s2) tok_arrow")
      case arrow: True
      with c cs True have "CT (consumeToken ?s2) = Some (b, s')"
        by (simp add: canParseTypeBody_def Let_def consumeIf_def)
      from shrinksD[OF assms(2) this] w1 w2 weight_consumeToken[of ?s2] show ?thesis by simp
    next
      case False
      with c cs True have
        "(if isFollowingLSquare (Tok ?s4) then canParseTypeArray n ?s4 else Some (True, ?s4)) =
           Some (b, s')"
        by (simp add: canParseTypeBody_def Let_def consumeIf_def)
      with canParseTypeArray_shrinks[of n ?s4 b s'] w1 w2 w4 show ?thesis
        by (auto split: if_splits)
    qed
  qed
qed

lemma canParseType_shrinks:
  assumes "skipSingleAdvances E"
  shows "shrinks (canParseType E n)"
proof (induction n)
  case 0
  show ?case by (simp add: shrinks_def)
next
  case (Suc n)
  then show ?case by (simp add: canParseTypeBody_shrinks[OF assms])
qed

lemma totalBelowD: "totalBelow CT B \<Longrightarrow> tokenWeight s < B \<Longrightarrow> \<exists>b s'. CT s = Some (b, s')"
  unfolding totalBelow_def by (cases "CT s") auto

lemma canParseTypeArray_total:
  "tokenWeight s < n \<Longrightarrow> canParseTypeArray n s \<noteq> None"
proof (induction n arbitrary: s)
  case 0
  then show ?case by simp
next
  case (Suc n)
  let ?s1 = "consumeToken s"
  let ?s2 = "consumeToken ?s1"
  show ?case
  proof (cases "tokIs (Tok ?s1) tok_r_square \<and> isFollowingLSquare (Tok ?s2)")
    case True
    then have "tokenWeight ?s2 < tokenWeight ?s1"
      using weight_consumeToken_is[of ?s1 tok_r_square] by simp
    with weight_consumeToken[of s] Suc.prems have "tokenWeight ?s2 < n" by simp
    from Suc.IH[OF this] True show ?thesis by (simp add: Let_def)
  next
    case False
    then show ?thesis by (auto simp: Let_def)
  qed
qed

lemma canParseGenericArgumentsLoop_total:
  assumes "totalBelow CT B" and "shrinks CT"
  shows "tokenWeight s < B \<Longrightarrow> tokenWeight s < n \<Longrightarrow>
         canParseGenericArgumentsLoop CT n s \<noteq> None"
proof (induction n arbitrary: s)
  case 0
  then show ?case by simp
next
  case (Suc n)
  from totalBelowD[OF assms(1) Suc.prems(1)] obtain b1 s1 where c: "CT s = Some (b1, s1)"
    by blast
  note w = shrinksD[OF assms(2) c]
  show ?case
  proof (cases "b1 \<and> tokIs (Tok s1) tok_comma")
    case True
    then have "tokenWeight (consumeToken s1) < tokenWeight s1"
      using weight_consumeToken_is[of s1 tok_comma] by simp
    with w Suc.prems have "tokenWeight (consumeToken s1) < B" "tokenWeight (consumeToken s1) < n"
      by simp_all
    from Suc.IH[OF this] c True show ?thesis by (simp add: consumeIf_def)
  next
    case False
    with c show ?thesis by (auto simp: consumeIf_def split: bool.splits)
  qed
qed

lemma canParseGenericArgumentsWith_total:
  assumes "totalBelow CT B" and "shrinks CT"
    and "tokenWeight s \<le> B" and "tokenWeight s \<le> n"
  shows "canParseGenericArgumentsWith CT n s \<noteq> None"
proof (cases "startsWithLess (Tok s)")
  case False
  then show ?thesis by (simp add: canParseGenericArgumentsWith_def)
next
  case True
  from weight_consumeStartingLess[OF True] assms(3,4)
  have "tokenWeight (consumeStartingLess s) < B" "tokenWeight (consumeStartingLess s) < n"
    by simp_all
  from canParseGenericArgumentsLoop_total[OF assms(1,2) this] True show ?thesis
    by (auto simp: canParseGenericArgumentsWith_def split: option.splits bool.splits)
qed

lemma canParseTypeIdentifierLoop_total:
  assumes "totalBelow CT B" and "shrinks CT"
  shows "tokenWeight s \<le> B \<Longrightarrow> tokenWeight s < n \<Longrightarrow>
         canParseTypeIdentifierLoop E CT n s \<noteq> None"
proof (induction n arbitrary: s)
  case 0
  then show ?case by simp
next
  case (Suc n)
  let ?s1 = "consumeToken s"
  show ?case
  proof (cases "isIdentifierKeyword E (tokKind (Tok s)) \<or> tokIs (Tok s) tok_identifier")
    case False
    then show ?thesis by auto
  next
    case True
    have w1: "tokenWeight ?s1 \<le> B" "tokenWeight ?s1 \<le> n"
      using weight_consumeToken[of s] Suc.prems by simp_all
    have "(if startsWithLess (Tok ?s1) then canParseGenericArgumentsWith CT n ?s1
           else Some (True, ?s1)) \<noteq> None"
      using canParseGenericArgumentsWith_total[OF assms w1] by auto
    then obtain b2 s2 where
      g: "(if startsWithLess (Tok ?s1) then canParseGenericArgumentsWith CT n ?s1
           else Some (True, ?s1)) = Some (b2, s2)" by auto
    have w2: "tokenWeight s2 \<le> tokenWeight ?s1"
      using g canParseGenericArgumentsWith_shrinks[OF assms(2), of n ?s1 b2 s2]
      by (auto split: if_splits)
    show ?thesis
    proof (cases "b2 \<and> (tokIs (Tok s2) tok_period \<or> tokIs (Tok s2) tok_period_prefix) \<and>
                tokIsNot (peekToken s2) tok_kw_metatype")
      case cont: True
      then have "tokenWeight (consumeToken s2) < tokenWeight s2"
        using weight_consumeToken_is[of s2 tok_period] weight_consumeToken_is[of s2 tok_period_prefix]
        by auto
      with w1 w2 have "tokenWeight (consumeToken s2) \<le> B" "tokenWeight (consumeToken s2) < n"
        by simp_all
      from Suc.IH[OF this] True g cont show ?thesis by (simp add: Let_def)
    next
      case False
      with True g show ?thesis by (auto simp: Let_def split: bool.splits)
    qed
  qed
qed

lemma canParseTypeIdentifierWith_total:
  assumes "totalBelow CT B" and "shrinks CT"
    and "tokenWeight s \<le> B" and "tokenWeight s < n"
  shows "canParseTypeIdentifierWith E CT n s \<noteq> None"
  using canParseTypeIdentifierLoop_total[OF assms, of E]
  by (auto simp: canParseTypeIdentifierWith_def)

lemma canParseTypeCompositionLoop_total:
  assumes "totalBelow CT B" and "shrinks CT"
  shows "tokenWeight s \<le> B \<Longrightarrow> Suc (tokenWeight s) < n \<Longrightarrow>
         canParseTypeCompositionLoop E CT n s \<noteq> None"
proof (induction n arbitrary: s)
  case 0
  then show ?case by simp
next
  case (Suc n)
  from Suc.prems(2) have "tokenWeight s < n" by simp
  from canParseTypeIdentifierWith_total[OF assms Suc.prems(1) this, of E]
  obtain b1 s1 where c: "canParseTypeIdentifierWith E CT n s = Some (b1, s1)" by auto
  note w = canParseTypeIdentifierWith_shrinks[OF assms(2) c]
  show ?case
  proof (cases "b1 \<and> tokIs (Tok s1) tok_comma")
    case True
    then have "tokenWeight (consumeToken s1) < tokenWeight s1"
      using weight_consumeToken_is[of s1 tok_comma] by simp
    with w Suc.prems have "tokenWeight (consumeToken s1) \<le> B"
      "Suc (tokenWeight (consumeToken s1)) < n" by simp_all
    from Suc.IH[OF this] c True show ?thesis by (simp add: consumeIf_def)
  next
    case False
    with c show ?thesis by (auto simp: consumeIf_def split: bool.splits)
  qed
qed

lemma canParseTypeCompositionWith_total:
  assumes "totalBelow CT B" and "shrinks CT"
    and "tokenWeight s \<le> B" and "tokenWeight s < n"
  shows "canParseTypeCompositionWith E CT n s \<noteq> None"
proof -
  let ?s1 = "consumeToken s"
  let ?s2 = "consumeStartingLess ?s1"
  show ?thesis
  proof (cases "startsWithLess (Tok ?s1) \<and> \<not> startsWithGreater (Tok ?s2)")
    case False
    then show ?thesis by (auto simp: canParseTypeCompositionWith_def Let_def)
  next
    case True
    then have "tokenWeight ?s2 < tokenWeight ?s1" by (simp add: weight_consumeStartingLess)
    with weight_consumeToken[of s] assms(3,4)
    have "tokenWeight ?s2 \<le> B" "Suc (tokenWeight ?s2) < n" by simp_all
    from canParseTypeCompositionLoop_total[OF assms(1,2) this, of E] True show ?thesis
      by (auto simp: canParseTypeCompositionWith_def Let_def split: option.splits bool.splits)
  qed
qed

lemma skipAttributeTokens_total:
  assumes "skipSingleAdvances E"
  shows "tokenWeight s < n \<Longrightarrow> skipAttributeTokens E n s \<noteq> None"
proof (induction n arbitrary: s)
  case 0
  then show ?case by simp
next
  case (Suc n)
  show ?case
  proof (cases "tokIsNot (Tok s) tok_eof \<and> tokIsNot (Tok s) tok_r_brace \<and>
         tokIsNot (Tok s) tok_r_square \<and> tokIsNot (Tok s) tok_r_paren \<and>
         \<not> isStartOfDecl E (Tok s) (peekToken s)")
    case True
    with skipSingleAdvancesD[OF assms, of s] Suc.prems
    have "tokenWeight (skipSingle E s) < n" by simp
    from Suc.IH[OF this] True show ?thesis by simp
  next
    case False
    then show ?thesis by auto
  qed
qed

lemma skipDefaultValueTokens_total:
  assumes "skipSingleAdvances E"
  shows "tokenWeight s < n \<Longrightarrow> skipDefaultValueTokens E n s \<noteq> None"
proof (induction n arbitrary: s)
  case 0
  then show ?case by simp
next
  case (Suc n)
  show ?case
  proof (cases "tokIsNot (Tok s) tok_eof \<and> tokIsNot (Tok s) tok_r_paren \<and>
         tokIsNot (Tok s) tok_r_brace \<and> tokIsNot (Tok s) tok_ellipsis \<and>
         tokIsNot (Tok s) tok_comma \<and> \<not> isStartOfDecl E (Tok s) (peekToken s)")
    case True
    with skipSingleAdvancesD[OF assms, of s] Suc.prems
    have "tokenWeight (skipSingle E s) < n" by simp
    from Suc.IH[OF this] True show ?thesis by simp
  next
    case False
    then show ?thesis by auto
  qed
qed

lemma canSkipAttributes_total:
  assumes "skipSingleAdvances E" and "tokenWeight s \<le> n"
  shows "canSkipAttributes E n s \<noteq> None"
proof (cases "tokIs (Tok s) tok_l_square")
  case True
  then have "tokenWeight (consumeToken s) < tokenWeight s"
    using weight_consumeToken_is[of s tok_l_square] by simp
  with assms(2) have "tokenWeight (consumeToken s) < n" by simp
  from skipAttributeTokens_total[OF assms(1) this] True show ?thesis
    by (auto simp: canSkipAttributes_def consumeIf_def split: option.splits)
next
  case False
  then show ?thesis by (simp add: canSkipAttributes_def consumeIf_def)
qed

lemma canSkipDefaultValue_total:
  assumes "skipSingleAdvances E" and "tokenWeight s \<le> n"
  shows "canSkipDefaultValue E n s \<noteq> None"
proof (cases "tokIs (Tok s) tok_equal")
  case True
  then have "tokenWeight (consumeToken s) < tokenWeight s"
    using weight_consumeToken_is[of s tok_equal] by simp
  with assms(2) have "tokenWeight (consumeToken s) < n" by simp
  from skipDefaultValueTokens_total[OF assms(1) this] True show ?thesis
    by (simp add: canSkipDefaultValue_def consumeIf_def)
next
  case False
  then show ?thesis by (simp add: canSkipDefaultValue_def consumeIf_def)
qed

lemma canParseTypeTupleBodyLoop_total:
  assumes "skipSingleAdvances E" and "totalBelow CT B" and "shrinks CT"
  shows "tokenWeight s < B \<Longrightarrow> tokenWeight s < n \<Longrightarrow>
         canParseTypeTupleBodyLoop E CT n s \<noteq> None"
proof (induction n arbitrary: s)
  case 0
  then show ?case by simp
next
  case (Suc n)
  show ?case
  proof (cases "tokIs (Tok s) tok_identifier \<and> tokIs (peekToken s) tok_colon")
    case labelled: True
    let ?s0 = "consumeToken (consumeToken s)"
    have w0: "tokenWeight ?s0 \<le> tokenWeight s"
      using weight_consumeToken[of s] weight_consumeToken[of "consumeToken s"] by simp
    with Suc.prems have "tokenWeight ?s0 \<le> n" by simp
    from canSkipAttributes_total[OF assms(1) this] obtain b2 s2 where
      a: "canSkipAttributes E n ?s0 = Some (b2, s2)" by auto
    note w2 = canSkipAttributes_shrinks[OF assms(1) a]
    show ?thesis
    proof (cases b2)
      case False
      with labelled a show ?thesis by simp
    next
      case True
      from w0 w2 Suc.prems have "tokenWeight s2 < B" by simp
      from totalBelowD[OF assms(2) this] obtain b3 s3 where c: "CT s2 = Some (b3, s3)" by blast
      note w3 = shrinksD[OF assms(3) c]
      show ?thesis
      proof (cases b3)
        case False
        with labelled a True c show ?thesis by simp
      next
        case ok: True
        from w0 w2 w3 Suc.prems have "tokenWeight s3 \<le> n" by simp
        from canSkipDefaultValue_total[OF assms(1) this] obtain s4 where
          dv: "canSkipDefaultValue E n s3 = Some s4" by auto
        note w4 = canSkipDefaultValue_shrinks[OF assms(1) dv]
        show ?thesis
        proof (cases "tokIs (Tok s4) tok_comma")
          case comma: True
          then have "tokenWeight (consumeToken s4) < tokenWeight s4"
            using weight_consumeToken_is[of s4 tok_comma] by simp
          with w0 w2 w3 w4 Suc.prems have
            "tokenWeight (consumeToken s4) < B" "tokenWeight (consumeToken s4) < n" by simp_all
          from Suc.IH[OF this] labelled a True c ok dv comma show ?thesis
            by (simp add: consumeIf_def)
        next
          case False
          with labelled a True c ok dv show ?thesis by (simp add: consumeIf_def)
        qed
      qed
    qed
  next
    case unlabelled: False
    from Suc.prems have "tokenWeight s \<le> n" by simp
    from canSkipAttributes_total[OF assms(1) this] obtain b2 s2 where
      a: "canSkipAttributes E n s = Some (b2, s2)" by auto
    note w2 = canSkipAttributes_shrinks[OF assms(1) a]
    show ?thesis
    proof (cases b2)
      case False
      with unlabelled a show ?thesis by auto
    next
      case True
      from w2 Suc.prems have "tokenWeight s2 < B" by simp
      from totalBelowD[OF assms(2) this] obtain b3 s3 where c: "CT s2 = Some (b3, s3)" by blast
      note w3 = shrinksD[OF assms(3) c]
      show ?thesis
      proof (cases "b3 \<and> tokIs (Tok s3) tok_comma")
        case comma: True
        then have "tokenWeight (consumeToken s3) < tokenWeight s3"
          using weight_consumeToken_is[of s3 tok_comma] by simp
        with w2 w3 Suc.prems have
          "tokenWeight (consumeToken s3) < B" "tokenWeight (consumeToken s3) < n" by simp_all
        from Suc.IH[OF this] unlabelled a True c comma show ?thesis
          by (auto simp: consumeIf_def)
      next
        case False
        with unlabelled a True c show ?thesis
          by (auto simp: consumeIf_def split: bool.splits)
      qed
    qed
  qed
qed

lemma canParseTypeTupleBodyWith_total:
  assumes "skipSingleAdvances E" and "totalBelow CT B" and "shrinks CT"
    and "tokenWeight s < B" and "tokenWeight s < n"
  shows "canParseTypeTupleBodyWith E CT n s \<noteq> None"
  using canParseTypeTupleBodyLoop_total[OF assms]
  by (auto simp: canParseTypeTupleBodyWith_def Let_def split: option.splits bool.splits)

lemma canParseTypeSimple_total:
  assumes "skipSingleAdvances E" and "totalBelow CT B" and "shrinks CT"
    and "tokenWeight s \<le> B" and "tokenWeight s < n"
  shows "canParseTypeSimple E CT n s \<noteq> None"
proof (cases "tokIs (Tok s) tok_kw_This \<or> tokIs (Tok s) tok_identifier")
  case True
  with canParseTypeIdentifierWith_total[OF assms(2,3,4,5), of E] show ?thesis
    by (simp add: canParseTypeSimple_def)
next
  case notId: False
  show ?thesis
  proof (cases "tokIs (Tok s) tok_kw_protocol")
    case True
    with notId canParseTypeCompositionWith_total[OF assms(2,3,4,5), of E] show ?thesis
      by (simp add: canParseTypeSimple_def)
  next
    case notProtocol: False
    show ?thesis
    proof (cases "tokIs (Tok s) tok_l_paren")
      case True
      then have "tokenWeight (consumeToken s) < tokenWeight s"
        using weight_consumeToken_is[of s tok_l_paren] by simp
      with assms(4,5) have "tokenWeight (consumeToken s) < B" "tokenWeight (consumeToken s) < n"
        by simp_all
      from canParseTypeTupleBodyWith_total[OF assms(1,2,3) this] True notId notProtocol
      show ?thesis by (simp add: canParseTypeSimple_def)
    next
      case False
      with notId notProtocol show ?thesis by (simp add: canParseTypeSimple_def)
    qed
  qed
qed

lemma canParseTypeBody_total:
  assumes "skipSingleAdvances E" and "totalBelow CT (tokenWeight s)" and "shrinks CT"
    and "tokenWeight s < n"
  shows "canParseTypeBody E CT n s \<noteq> None"
proof -
  from canParseTypeSimple_total[OF assms(1,2,3) _ assms(4)] obtain b1 s1 where
    cs: "canParseTypeSimple E CT n s = Some (b1, s1)" by auto
  note w1 = canParseTypeSimple_shrinks[OF assms(1,3) cs]
  let ?s2 = "skipMetatypeSuffixes s1"
  let ?s4 = "skipOptionalSuffixes ?s2"
  note w2 = weight_skipMetatypeSuffixes[of s1]
  note w4 = weight_skipOptionalSuffixes[of ?s2]
  show ?thesis
  proof (cases b1)
    case False
    with cs show ?thesis by (simp add: canParseTypeBody_def)
  next
    case True
    show ?thesis
    proof (cases "tokIs (Tok ?s2) tok_arrow")
      case arrow: True
      then have "tokenWeight (consumeToken ?s2) < tokenWeight ?s2"
        using weight_consumeToken_is[of ?s2 tok_arrow] by simp
      with w1 w2 have "tokenWeight (consumeToken ?s2) < tokenWeight s" by simp
      from totalBelowD[OF assms(2) this] cs True arrow show ?thesis
        by (auto simp: canParseTypeBody_def Let_def consumeIf_def)
    next
      case False
      from w1 w2 w4 assms(4) have "tokenWeight ?s4 < n" by simp
      from canParseTypeArray_total[OF this] cs True False show ?thesis
        by (auto simp: canParseTypeBody_def Let_def consumeIf_def)
    qed
  qed
qed

lemma canParseType_total:
  assumes "skipSingleAdvances E"
  shows "Suc (tokenWeight s) < n \<Longrightarrow> canParseType E n s \<noteq> None"
proof (induction n arbitrary: s)
  case 0
  then show ?case by simp
next
  case (Suc n)
  have "totalBelow (canParseType E n) (tokenWeight s)"
    unfolding totalBelow_def
  proof (intro allI impI)
    fix s' assume "tokenWeight s' < tokenWeight s"
    with Suc.prems have "Suc (tokenWeight s') < n" by simp
    then show "canParseType E n s' \<noteq> None" by (rule Suc.IH)
  qed
  moreover from Suc.prems have "tokenWeight s < n" by simp
  ultimately show ?case
    using canParseTypeBody_total[OF assms _ canParseType_shrinks[OF assms]] by simp
qed

lemma canParseGenericArguments_total:
  assumes "skipSingleAdvances E" and "tokenWeight s + 2 \<le> n"
  shows "canParseGenericArguments E n s \<noteq> None"
proof -
  have "totalBelow (canParseType E n) (tokenWeight s)"
    unfolding totalBelow_def
  proof (intro allI impI)
    fix s' assume "tokenWeight s' < tokenWeight s"
    with assms(2) have "Suc (tokenWeight s') < n" by simp
    then show "canParseType E n s' \<noteq> None" by (rule canParseType_total[OF assms(1)])
  qed
  moreover from assms(2) have "tokenWeight s \<le> n" by simp
  ultimately show ?thesis
    using canParseGenericArgumentsWith_total[OF _ canParseType_shrinks[OF assms(1)], of n "tokenWeight s" s]
    by (simp add: canParseGenericArguments_def)
qed


text \<open>
  C6. \<open>canParseAsGenericArgumentList\<close> is pure lookahead: whatever it answers, and
  with whatever fuel, the parser state it returns (cursor and diagnostics) is the one
  it was entered with. And it does answer: when the collaborator's \<^verbatim>\<open>skipSingle\<close>
  advances, fuel of the weight of the input plus two is enough on every token stream.
\<close>

theorem canParseAsGenericArgumentList_pure_lookahead:
  "(\<forall>n b s'. canParseAsGenericArgumentList E n s = Some (b, s') \<longrightarrow> s' = s) \<and>
   (skipSingleAdvances E \<longrightarrow>
      (\<forall>n. tokenWeight s + 2 \<le> n \<longrightarrow> (\<exists>b. canParseAsGenericArgumentList E n s = Some (b, s))))"
proof (intro conjI allI impI)
  fix n b s'
  assume "canParseAsGenericArgumentList E n s = Some (b, s')"
  then show "s' = s"
    by (auto simp: canParseAsGenericArgumentList_def BacktrackingScope_def
          split: option.splits bool.splits prod.splits if_splits)
next
  fix n
  assume a: "skipSingleAdvances E" and n: "tokenWeight s + 2 \<le> n"
  from canParseGenericArguments_total[OF a n] obtain b1 s1 where
    "canParseGenericArguments E n s = Some (b1, s1)" by auto
  then show "\<exists>b. canParseAsGenericArgumentList E n s = Some (b, s)"
    by (auto simp: canParseAsGenericArgumentList_def BacktrackingScope_def split: bool.splits)
qed


lemma exampleCollaborators_skipSingleAdvances: "skipSingleAdvances exampleCollaborators"
  by (auto simp: skipSingleAdvances_def exampleCollaborators_def tokIsNot_def
        intro!: weight_consumeToken_less dest: Tok_not_eof_nonempty)


theorem canParseAsGenericArgumentList_pure_lookahead_witness:
  "skipSingleAdvances exampleCollaborators \<and>
   tokenWeight (startParser [mkTok tok_oper_binary ''<'' 0, mkTok tok_identifier ''Int'' 1,
                   mkTok tok_comma '','' 4, mkTok tok_oper_binary ''+'' 6]) + 2 \<le> 12 \<and>
   canParseAsGenericArgumentList exampleCollaborators 12
     (startParser [mkTok tok_oper_binary ''<'' 0, mkTok tok_identifier ''Int'' 1,
                   mkTok tok_comma '','' 4, mkTok tok_oper_binary ''+'' 6]) =
   Some (False, startParser [mkTok tok_oper_binary ''<'' 0, mkTok tok_identifier ''Int'' 1,
                   mkTok tok_comma '','' 4, mkTok tok_oper_binary ''+'' 6])"
proof -
  let ?s = "startParser [mkTok tok_oper_binary ''<'' 0, mkTok tok_identifier ''Int'' 1,
                   mkTok tok_comma '','' 4, mkTok tok_oper_binary ''+'' 6]"
  have w: "tokenWeight ?s + 2 \<le> 12" by code_simp
  note t = canParseAsGenericArgumentList_pure_lookahead[of exampleCollaborators ?s]
  from t exampleCollaborators_skipSingleAdvances w
  obtain b where r: "canParseAsGenericArgumentList exampleCollaborators 12 ?s = Some (b, ?s)"
    by blast
  have "fst (the (canParseAsGenericArgumentList exampleCollaborators 12 ?s)) = False"
    by code_simp
  with r have "b = False" by simp
  with r exampleCollaborators_skipSingleAdvances w show ?thesis by simp
qed

end
